theory Spec2Isabelle
  imports Complex_Main
begin

section \<open>Python values and exceptions\<close>

text \<open>
  The exceptions that the modelled code raises itself or receives from the libraries it
  calls.  Every constructor but the last stands for a subclass of Python's
  \<^verbatim>\<open>Exception\<close>; \<^verbatim>\<open>asyncio.CancelledError\<close> derives from
  \<^verbatim>\<open>BaseException\<close> only, so \<^verbatim>\<open>except Exception\<close> does not catch it.
  \<open>ServiceError\<close> stands for any \<^verbatim>\<open>Exception\<close> raised by the Odyssey SDK, by
  aiohttp or by the file system.
\<close>

datatype py_exn =
    TimeoutError string
  | RuntimeError string
  | OdysseyStreamError string
  | TypeError string
  | JSONDecodeError string
  | FileNotFoundError string
  | ServiceError string
  | CancelledError

fun is_Exception :: "py_exn \<Rightarrow> bool" where
  "is_Exception CancelledError = False"
| "is_Exception _ = True"

text \<open>\<^verbatim>\<open>str(e)\<close>: the message the exception was built with.\<close>

fun str_exn :: "py_exn \<Rightarrow> string" where
  "str_exn (TimeoutError m) = m"
| "str_exn (RuntimeError m) = m"
| "str_exn (OdysseyStreamError m) = m"
| "str_exn (TypeError m) = m"
| "str_exn (JSONDecodeError m) = m"
| "str_exn (FileNotFoundError m) = m"
| "str_exn (ServiceError m) = m"
| "str_exn CancelledError = []"

text \<open>
  The values that occur in scripts.  A dict keeps its items in insertion order, as
  Python's does; keys are strings.
\<close>

datatype pyval =
    PNone
  | PInt int
  | PStr string
  | PBytes string
  | PList "pyval list"
  | PDict "(string \<times> pyval) list"

text \<open>Paths: \<open>Path s\<close> is \<^verbatim>\<open>Path(s)\<close> and \<open>Div p n\<close> is \<^verbatim>\<open>p / n\<close>.\<close>

datatype path = Path string | Div path string

text \<open>The decimal rendering of an index in an f-string.\<close>

definition digit :: "nat \<Rightarrow> char" where
  "digit d = char_of (48 + d)"

function str_nat :: "nat \<Rightarrow> string" where
  "str_nat n = (if n < 10 then [digit n] else str_nat (n div 10) @ [digit (n mod 10)])"
  by pat_completeness auto
termination
  by (relation "measure id") auto

declare str_nat.simps [simp del]

section \<open>SimulationScript\<close>

record SimulationScript =
  actions :: "pyval list"

definition new_script :: SimulationScript where
  "new_script = \<lparr> actions = [] \<rparr>"

definition add_start :: "SimulationScript \<Rightarrow> string \<Rightarrow> int \<Rightarrow> pyval option \<Rightarrow> SimulationScript" where
  "add_start script prompt timestamp_ms image_arg =
     (let start_items = [(''prompt'', PStr prompt)]
                  @ (case image_arg of None \<Rightarrow> [] | Some img \<Rightarrow> [(''image'', img)]);
          action = PDict [(''timestamp_ms'', PInt timestamp_ms), (''start'', PDict start_items)]
      in script\<lparr> actions := actions script @ [action] \<rparr>)"

definition add_interact :: "SimulationScript \<Rightarrow> string \<Rightarrow> int \<Rightarrow> SimulationScript" where
  "add_interact script prompt timestamp_ms =
     script\<lparr> actions := actions script @
       [PDict [(''timestamp_ms'', PInt timestamp_ms),
               (''interact'', PDict [(''prompt'', PStr prompt)])]] \<rparr>"

definition add_end :: "SimulationScript \<Rightarrow> int \<Rightarrow> SimulationScript" where
  "add_end script timestamp_ms =
     script\<lparr> actions := actions script @
       [PDict [(''timestamp_ms'', PInt timestamp_ms), (''end'', PDict [])]] \<rparr>"

definition to_dict :: "SimulationScript \<Rightarrow> pyval list" where
  "to_dict script = actions script"

text \<open>
  \<^verbatim>\<open>json.dumps\<close> and \<^verbatim>\<open>json.load\<close> of the standard library, up to the text
  layer: a document is kept as its tree, so that printing with \<^verbatim>\<open>indent=2\<close> and
  parsing the printed text back are taken to be inverse to each other.  What is
  modelled is which values the encoder accepts: \<^verbatim>\<open>bytes\<close> raises
  \<^verbatim>\<open>TypeError\<close>.
\<close>

datatype json =
    JNull
  | JNumber int
  | JString string
  | JArray "json list"
  | JObject "(string \<times> json) list"

fun collect :: "(py_exn + 'a) list \<Rightarrow> py_exn + 'a list" where
  "collect [] = Inr []"
| "collect (Inl e # rs) = Inl e"
| "collect (Inr x # rs) = (case collect rs of Inl e \<Rightarrow> Inl e | Inr xs \<Rightarrow> Inr (x # xs))"

fun json_dumps :: "pyval \<Rightarrow> py_exn + json" where
  "json_dumps PNone = Inr JNull"
| "json_dumps (PInt n) = Inr (JNumber n)"
| "json_dumps (PStr s) = Inr (JString s)"
| "json_dumps (PBytes b) = Inl (TypeError ''Object of type bytes is not JSON serializable'')"
| "json_dumps (PList xs) =
     (case collect (map json_dumps xs) of Inl e \<Rightarrow> Inl e | Inr js \<Rightarrow> Inr (JArray js))"
| "json_dumps (PDict kvs) =
     (case collect (map (\<lambda>(k, v). case json_dumps v of Inl e \<Rightarrow> Inl e | Inr j \<Rightarrow> Inr (k, j)) kvs) of
        Inl e \<Rightarrow> Inl e
      | Inr js \<Rightarrow> Inr (JObject js))"

fun json_loads :: "json \<Rightarrow> pyval" where
  "json_loads JNull = PNone"
| "json_loads (JNumber n) = PInt n"
| "json_loads (JString s) = PStr s"
| "json_loads (JArray js) = PList (map json_loads js)"
| "json_loads (JObject kvs) = PDict (map (\<lambda>(k, j). (k, json_loads j)) kvs)"

text \<open>
  The file system, for script files: a file is empty (as right after it was opened for
  writing) or holds one JSON array.
\<close>

datatype file_text = Empty_file | Array_file "json list"

type_synonym file_system = "string \<rightharpoonup> file_text"

text \<open>
  \<^verbatim>\<open>to_file\<close>: the file is opened with mode \<^verbatim>\<open>'w'\<close>, which creates or truncates
  it, before \<^verbatim>\<open>json.dumps(self.actions, indent=2)\<close> is evaluated.
\<close>

definition to_file :: "file_system \<Rightarrow> SimulationScript \<Rightarrow> string \<Rightarrow> (py_exn + unit) \<times> file_system" where
  "to_file fs script filepath =
     (let opened = fs(filepath \<mapsto> Empty_file)
      in (case collect (map json_dumps (actions script)) of
            Inl e \<Rightarrow> (Inl e, opened)
          | Inr js \<Rightarrow> (Inr (), opened(filepath \<mapsto> Array_file js))))"

definition from_file :: "file_system \<Rightarrow> string \<Rightarrow> py_exn + SimulationScript" where
  "from_file fs filepath =
     (case fs filepath of
        None \<Rightarrow> Inl (FileNotFoundError filepath)
      | Some Empty_file \<Rightarrow> Inl (JSONDecodeError ''Expecting value'')
      | Some (Array_file js) \<Rightarrow> Inr (new_script\<lparr> actions := map json_loads js \<rparr>))"

section \<open>SimulationManager\<close>

text \<open>
  What \<^verbatim>\<open>client.get_simulate_status\<close> returns: \<open>detail_streams\<close> is \<open>None\<close> or
  the list of the streams' ids, \<open>error_message\<close> is \<open>None\<close> when the attribute is
  missing or holds \<^verbatim>\<open>None\<close>.  The status is compared with string literals by the
  code, so it is a string here.
\<close>

record job_detail =
  detail_job_id :: string
  detail_status :: string
  detail_streams :: "string list option"
  error_message :: "string option"

text \<open>
  The status dict built by \<^verbatim>\<open>get_status\<close>, keys \<^verbatim>\<open>job_id\<close>, \<^verbatim>\<open>status\<close>,
  \<^verbatim>\<open>streams\<close> (each \<^verbatim>\<open>{'stream_id': s}\<close> kept as its \<open>s\<close>) and \<^verbatim>\<open>error\<close>.
\<close>

record status_dict =
  job_id :: string
  status :: string
  streams :: "string list"
  error :: "string option"

text \<open>What \<^verbatim>\<open>client.simulate\<close> and \<^verbatim>\<open>client.get_recording\<close> return.\<close>

record job =
  sim_job_id :: string
  sim_status :: string

record recording =
  video_url :: string
  thumbnail_url :: string

text \<open>
  A (fake) service handle, as seen by the calls made for one job: the outcome of
  \<^verbatim>\<open>client.simulate\<close>, of the \<open>k\<close>-th \<^verbatim>\<open>get_simulate_status\<close> call, the
  event-loop time read before the polling loop and in its \<open>k\<close>-th iteration, Python's
  rendering of \<^verbatim>\<open>{elapsed:.1f}\<close>, and the outcomes of creating the output
  directory, of \<^verbatim>\<open>client.get_recording\<close> and of \<^verbatim>\<open>_download_file\<close>.
  The bookkeeping in \<^verbatim>\<open>active_jobs\<close>, the log calls and the length of the sleep
  between two polls influence no return value and no exception, and are left out.
\<close>

record service =
  simulate :: "pyval list \<Rightarrow> bool \<Rightarrow> py_exn + job"
  get_simulate_status :: "nat \<Rightarrow> string \<Rightarrow> py_exn + job_detail"
  start_time :: real
  loop_time :: "nat \<Rightarrow> real"
  fmt_elapsed :: "real \<Rightarrow> string"
  mkdir :: "path \<Rightarrow> py_exn + unit"
  get_recording :: "string \<Rightarrow> py_exn + recording"
  download_file :: "string \<Rightarrow> path \<Rightarrow> py_exn + unit"

text \<open>\<^verbatim>\<open>submit\<close> takes a \<^verbatim>\<open>SimulationScript\<close> or a raw list of dicts.\<close>

datatype script_arg = Script SimulationScript | Raw "pyval list"

definition submit :: "service \<Rightarrow> script_arg \<Rightarrow> bool \<Rightarrow> string option \<Rightarrow> py_exn + string" where
  "submit svc script portrait job_name =
     (let script_data = (case script of Script sc \<Rightarrow> to_dict sc | Raw l \<Rightarrow> l)
      in (case simulate svc script_data portrait of
            Inl e \<Rightarrow> Inl e
          | Inr j \<Rightarrow> Inr (sim_job_id j)))"

definition get_status :: "service \<Rightarrow> nat \<Rightarrow> string \<Rightarrow> py_exn + status_dict" where
  "get_status svc k jid =
     (case get_simulate_status svc k jid of
        Inl e \<Rightarrow> Inl e
      | Inr d \<Rightarrow>
          Inr \<lparr> job_id = detail_job_id d,
                status = detail_status d,
                streams = (case detail_streams d of None \<Rightarrow> [] | Some ss \<Rightarrow> ss),
                error = error_message d \<rparr>)"

text \<open>
  The timeout check of one iteration: \<^verbatim>\<open>if timeout:\<close> on an \<^verbatim>\<open>Optional[int]\<close>
  (\<^verbatim>\<open>None\<close> and \<^verbatim>\<open>0\<close> are falsy), then \<^verbatim>\<open>if elapsed > timeout:\<close>.
\<close>

fun timed_out :: "int option \<Rightarrow> real \<Rightarrow> bool" where
  "timed_out None elapsed = False"
| "timed_out (Some t) elapsed = (t \<noteq> 0 \<and> elapsed > real_of_int t)"

text \<open>
  The \<^verbatim>\<open>while True\<close> loop of \<^verbatim>\<open>wait_for_completion\<close>, from its \<open>k\<close>-th iteration
  on.  It may poll forever, so it runs on fuel: \<open>None\<close> means that the loop is still
  polling after \<open>fuel\<close> iterations.  \<open>Some (Inr st)\<close> is the \<^verbatim>\<open>break\<close> with the last
  status, \<open>Some (Inl e)\<close> an exception leaving the loop.
\<close>

fun poll_loop ::
  "service \<Rightarrow> string \<Rightarrow> int option \<Rightarrow> nat \<Rightarrow> nat \<Rightarrow> (py_exn + status_dict) option"
where
  "poll_loop svc jid timeout k 0 = None"
| "poll_loop svc jid timeout k (Suc fuel) =
     (case get_status svc k jid of
        Inl e \<Rightarrow> Some (Inl e)
      | Inr st \<Rightarrow>
          if status st \<notin> set [''pending'', ''running''] then Some (Inr st)
          else if timed_out timeout (loop_time svc k - start_time svc)
          then Some (Inl (TimeoutError
                 (''Job '' @ jid @ '' timed out after ''
                    @ fmt_elapsed svc (loop_time svc k - start_time svc) @ ''s'')))
          else poll_loop svc jid timeout (Suc k) fuel)"

text \<open>
  The code after the loop.  The dict always has the key \<^verbatim>\<open>error\<close>, so
  \<^verbatim>\<open>status.get('error', 'Unknown error')\<close> is its value, \<^verbatim>\<open>None\<close> included.
\<close>

definition check_final :: "status_dict \<Rightarrow> py_exn + status_dict" where
  "check_final st =
     (if status st = ''failed''
      then Inl (RuntimeError (''Job failed: '' @ (case error st of None \<Rightarrow> ''None'' | Some m \<Rightarrow> m)))
      else if status st = ''cancelled'' then Inl (RuntimeError ''Job was cancelled'')
      else Inr st)"

definition wait_for_completion ::
  "service \<Rightarrow> string \<Rightarrow> int option \<Rightarrow> nat \<Rightarrow> (py_exn + status_dict) option"
where
  "wait_for_completion svc jid timeout fuel =
     (case poll_loop svc jid timeout 0 fuel of
        None \<Rightarrow> None
      | Some (Inl e) \<Rightarrow> Some (Inl e)
      | Some (Inr st) \<Rightarrow> Some (check_final st))"

text \<open>
  \<^verbatim>\<open>download_result\<close>: the loop over \<^verbatim>\<open>enumerate(streams)\<close>, from index \<open>i\<close> on,
  with the paths downloaded so far.
\<close>

fun download_streams ::
  "service \<Rightarrow> path \<Rightarrow> string \<Rightarrow> nat \<Rightarrow> string list \<Rightarrow> path list \<Rightarrow> py_exn + path list"
where
  "download_streams svc output_dir jid i [] downloaded = Inr downloaded"
| "download_streams svc output_dir jid i (stream_id # rest) downloaded =
     (case get_recording svc stream_id of
        Inl e \<Rightarrow> Inl e
      | Inr r \<Rightarrow>
          (let video_path = Div output_dir (jid @ ''_stream_'' @ str_nat i @ ''.mp4'');
               thumb_path = Div output_dir (jid @ ''_stream_'' @ str_nat i @ ''_thumb.jpg'')
           in (case download_file svc (video_url r) video_path of
                 Inl e \<Rightarrow> Inl e
               | Inr _ \<Rightarrow>
                   (case download_file svc (thumbnail_url r) thumb_path of
                      Inl e \<Rightarrow> Inl e
                    | Inr _ \<Rightarrow>
                        download_streams svc output_dir jid (Suc i) rest
                          (downloaded @ [video_path, thumb_path])))))"

definition download_result :: "service \<Rightarrow> status_dict \<Rightarrow> path \<Rightarrow> py_exn + path list" where
  "download_result svc st output_dir =
     (case mkdir svc output_dir of
        Inl e \<Rightarrow> Inl e
      | Inr _ \<Rightarrow>
          if streams st = [] then Inr []
          else download_streams svc output_dir (job_id st) 0 (streams st) [])"

section \<open>BatchProcessor\<close>

text \<open>
  The dict that \<^verbatim>\<open>_process_single\<close> returns:
  \<^verbatim>\<open>{'index', 'job_id', 'status': 'success', 'files'}\<close> or
  \<^verbatim>\<open>{'index', 'status': 'failed', 'error'}\<close>.  A file stands for its \<^verbatim>\<open>str(p)\<close>.
\<close>

datatype batch_result =
    Success nat string "path list"
  | Failed nat string

fun result_index :: "batch_result \<Rightarrow> nat" where
  "result_index (Success i jid fs) = i"
| "result_index (Failed i err) = i"

fun result_status :: "batch_result \<Rightarrow> string" where
  "result_status (Success i jid fs) = ''success''"
| "result_status (Failed i err) = ''failed''"

text \<open>
  How a coroutine ends: it returns a dict, or an exception leaves it.  With
  \<^verbatim>\<open>return_exceptions=True\<close>, \<^verbatim>\<open>asyncio.gather\<close> puts the exception object
  into the result list.
\<close>

datatype outcome = Returned batch_result | Raised py_exn

text \<open>\<^verbatim>\<open>except Exception as e\<close>: any other exception leaves the coroutine.\<close>

definition on_error :: "nat \<Rightarrow> py_exn \<Rightarrow> outcome" where
  "on_error index e =
     (if is_Exception e then Returned (Failed index (str_exn e)) else Raised e)"

text \<open>
  The body of \<^verbatim>\<open>async with self.semaphore\<close> in \<^verbatim>\<open>_process_single\<close>.  The wait
  has no timeout and may poll forever: \<open>None\<close> means that it is still polling after
  \<open>fuel\<close> polls.
\<close>

definition process_single ::
  "service \<Rightarrow> script_arg \<Rightarrow> nat \<Rightarrow> path \<Rightarrow> bool \<Rightarrow> nat \<Rightarrow> outcome option"
where
  "process_single svc script index output_dir portrait fuel =
     (case submit svc script portrait (Some (''batch_'' @ str_nat index)) of
        Inl e \<Rightarrow> Some (on_error index e)
      | Inr jid \<Rightarrow>
          (case wait_for_completion svc jid None fuel of
             None \<Rightarrow> None
           | Some (Inl e) \<Rightarrow> Some (on_error index e)
           | Some (Inr st) \<Rightarrow>
               (case download_result svc st output_dir of
                  Inl e \<Rightarrow> Some (on_error index e)
                | Inr paths \<Rightarrow> Some (Returned (Success index jid paths)))))"

text \<open>
  The tasks that \<^verbatim>\<open>asyncio.gather\<close> runs, one per script, interleaved by the event
  loop.  A task waits for the semaphore, is inside \<^verbatim>\<open>async with\<close>, or is done.
  The semaphore is \<^verbatim>\<open>asyncio.Semaphore\<close>: a counter that \<^verbatim>\<open>acquire\<close> decrements
  when it is positive and waits for otherwise, and that \<^verbatim>\<open>release\<close> increments.
  \<open>sem_log\<close> records each acquire and release with the task's index; it is not in the
  source and only observes.
\<close>

datatype task = Queued | Running | Done outcome

datatype sem_event = Acquired nat | Released nat

record batch_state =
  semaphore :: int
  tasks :: "task list"
  sem_log :: "sem_event list"

text \<open>
  What the event loop does next: task \<open>i\<close> enters \<^verbatim>\<open>async with\<close>, or task \<open>i\<close>
  leaves it, its wait having ended within \<open>fuel\<close> polls.  Leaving releases the
  semaphore in \<^verbatim>\<open>__aexit__\<close>, on a return and on an exception alike.  An event
  that cannot happen in the state (no permit, wrong task state, wait not over) changes
  nothing.  The bodies of different tasks share only \<^verbatim>\<open>active_jobs\<close> and the log.
\<close>

datatype event = Enter nat | Leave nat nat

record batch_env =
  services :: "nat \<Rightarrow> service"
  scripts :: "script_arg list"
  output_dir :: path
  portrait :: bool

fun step :: "batch_env \<Rightarrow> batch_state \<Rightarrow> event \<Rightarrow> batch_state" where
  "step env s (Enter i) =
     (if i < length (tasks s) \<and> tasks s ! i = Queued \<and> semaphore s > 0
      then s\<lparr> semaphore := semaphore s - 1,
               tasks := (tasks s)[i := Running],
               sem_log := sem_log s @ [Acquired i] \<rparr>
      else s)"
| "step env s (Leave i fuel) =
     (if i < length (tasks s) \<and> tasks s ! i = Running
      then (case process_single (services env i) (scripts env ! i) i (output_dir env) (portrait env) fuel of
              None \<Rightarrow> s
            | Some r \<Rightarrow>
                s\<lparr> semaphore := semaphore s + 1,
                   tasks := (tasks s)[i := Done r],
                   sem_log := sem_log s @ [Released i] \<rparr>)
      else s)"

text \<open>
  \<^verbatim>\<open>BatchProcessor(max_concurrent)\<close> creates the semaphore with \<open>max_concurrent\<close>
  permits; \<^verbatim>\<open>process_batch\<close> creates one task per script.
\<close>

definition start :: "int \<Rightarrow> batch_env \<Rightarrow> batch_state" where
  "start max_concurrent env =
     \<lparr> semaphore = max_concurrent,
       tasks = replicate (length (scripts env)) Queued,
       sem_log = [] \<rparr>"

definition run :: "int \<Rightarrow> batch_env \<Rightarrow> event list \<Rightarrow> batch_state" where
  "run max_concurrent env schedule = foldl (step env) (start max_concurrent env) schedule"

fun in_pipeline :: "task \<Rightarrow> bool" where
  "in_pipeline Running = True"
| "in_pipeline _ = False"

definition in_flight :: "batch_state \<Rightarrow> nat" where
  "in_flight s = length (filter in_pipeline (tasks s))"

fun task_result :: "task \<Rightarrow> outcome option" where
  "task_result (Done r) = Some r"
| "task_result _ = None"

text \<open>
  \<^verbatim>\<open>process_batch\<close> under a schedule: \<^verbatim>\<open>gather\<close> returns once every task is done,
  with the tasks' results in the order of the tasks; \<open>None\<close> means that some task is
  not done after the schedule.
\<close>

definition process_batch :: "int \<Rightarrow> batch_env \<Rightarrow> event list \<Rightarrow> outcome list option" where
  "process_batch max_concurrent env schedule =
     (let s = run max_concurrent env schedule
      in if list_all (\<lambda>t. task_result t \<noteq> None) (tasks s)
         then Some (map (\<lambda>t. the (task_result t)) (tasks s))
         else None)"

section \<open>StreamManager\<close>

text \<open>
  A websocket is known by a number.  \<open>send_text\<close> is the outcome of sending a
  message on a websocket.
\<close>

record StreamManager =
  active_connections :: "nat list"
  is_streaming :: bool

definition disconnect :: "StreamManager \<Rightarrow> nat \<Rightarrow> StreamManager" where
  "disconnect sm websocket =
     (if websocket \<in> set (active_connections sm)
      then sm\<lparr> active_connections := remove1 websocket (active_connections sm) \<rparr>
      else sm)"

definition frame_message :: "string \<Rightarrow> json" where
  "frame_message frame_data_base64 =
     JObject [(''type'', JString ''frame''), (''data'', JString frame_data_base64)]"

text \<open>
  The result of \<^verbatim>\<open>broadcast_frame\<close>: what the coroutine returns or raises, the
  manager afterwards, the \<^verbatim>\<open>send_text\<close> calls that were made, and what
  \<^verbatim>\<open>gather(..., return_exceptions=True)\<close> collected (the code drops it).
\<close>

record broadcast =
  raised :: "py_exn option"
  manager :: StreamManager
  sent :: "(nat \<times> json) list"
  gathered :: "(py_exn + unit) list"

definition broadcast_frame ::
  "(nat \<Rightarrow> json \<Rightarrow> py_exn + unit) \<Rightarrow> StreamManager \<Rightarrow> string \<Rightarrow> broadcast"
where
  "broadcast_frame send_text sm frame_data_base64 =
     (if active_connections sm = []
      then \<lparr> raised = None, manager = sm, sent = [], gathered = [] \<rparr>
      else
        let message = frame_message frame_data_base64
        in \<lparr> raised = None,
             manager = sm,
             sent = map (\<lambda>connection. (connection, message)) (active_connections sm),
             gathered = map (\<lambda>connection. send_text connection message) (active_connections sm) \<rparr>)"

section \<open>OdysseyClientManager\<close>

record OdysseyClientManager =
  connected :: bool
  current_stream_id :: "string option"

text \<open>\<^verbatim>\<open>not self._current_stream_id\<close>: \<^verbatim>\<open>None\<close> and the empty string are falsy.\<close>

fun no_stream :: "string option \<Rightarrow> bool" where
  "no_stream None = True"
| "no_stream (Some sid) = (sid = [])"

text \<open>
  \<^verbatim>\<open>end_stream\<close>, given the outcome of \<^verbatim>\<open>client.end_stream()\<close> should it be
  called.  The handler \<^verbatim>\<open>except Exception\<close> clears the stream id and raises again;
  an exception that it does not catch leaves the stream id as it is.
\<close>

definition end_stream ::
  "(py_exn + unit) \<Rightarrow> OdysseyClientManager \<Rightarrow> (py_exn + unit) \<times> OdysseyClientManager"
where
  "end_stream client_end_stream m =
     (if \<not> connected m
      then (Inl (OdysseyStreamError ''Cannot end stream: client is not connected''), m)
      else if no_stream (current_stream_id m) then (Inr (), m)
      else (case client_end_stream of
              Inr _ \<Rightarrow> (Inr (), m\<lparr> current_stream_id := None \<rparr>)
            | Inl e \<Rightarrow>
                if is_Exception e then (Inl e, m\<lparr> current_stream_id := None \<rparr>)
                else (Inl e, m)))"

section \<open>Notions used in the statements\<close>

text \<open>
  Iteration \<open>k\<close> of the polling loop goes on to the next one: the poll returns, its
  status is \<^verbatim>\<open>pending\<close> or \<^verbatim>\<open>running\<close>, and the timeout check does not raise.
\<close>

definition still_polling :: "service \<Rightarrow> string \<Rightarrow> int option \<Rightarrow> nat \<Rightarrow> bool" where
  "still_polling svc jid timeout k =
     (case get_status svc k jid of
        Inl e \<Rightarrow> False
      | Inr st \<Rightarrow> status st \<in> set [''pending'', ''running'']
                   \<and> \<not> timed_out timeout (loop_time svc k - start_time svc))"

text \<open>
  The script data that \<^verbatim>\<open>submit\<close> hands to \<^verbatim>\<open>client.simulate\<close>.
\<close>

fun script_data :: "script_arg \<Rightarrow> pyval list" where
  "script_data (Script sc) = actions sc"
| "script_data (Raw l) = l"

text \<open>
  Poll \<open>k\<close> is the first poll of a wait without timeout that is not followed by
  another one: the polls before it reported \<^verbatim>\<open>pending\<close> or \<^verbatim>\<open>running\<close>, and
  poll \<open>k\<close> raised or reported another status.  An item ends within \<open>fuel\<close> polls
  when its submit is refused or its job has such a poll among the first \<open>fuel\<close>.
\<close>

definition first_final :: "service \<Rightarrow> string \<Rightarrow> nat \<Rightarrow> bool" where
  "first_final svc jid k \<longleftrightarrow>
     (\<forall>j<k. still_polling svc jid None j) \<and> \<not> still_polling svc jid None k"

definition item_ends :: "service \<Rightarrow> script_arg \<Rightarrow> bool \<Rightarrow> nat \<Rightarrow> bool" where
  "item_ends svc script p fuel \<longleftrightarrow>
     (case simulate svc (script_data script) p of
        Inl e \<Rightarrow> True
      | Inr j \<Rightarrow> (\<exists>k<fuel. first_final svc (sim_job_id j) k))"

text \<open>
  The download of a job's streams, told stream by stream: the files of the \<open>m\<close>-th
  stream, what it means that the stream was downloaded, and that its download raised
  \<open>e\<close> at the recording, at the video or at the thumbnail.  A download error is a
  failure to create the output directory or the error of the first stream that fails.
\<close>

definition video_path :: "path \<Rightarrow> string \<Rightarrow> nat \<Rightarrow> path" where
  "video_path dir jid m = Div dir (jid @ ''_stream_'' @ str_nat m @ ''.mp4'')"

definition thumb_path :: "path \<Rightarrow> string \<Rightarrow> nat \<Rightarrow> path" where
  "thumb_path dir jid m = Div dir (jid @ ''_stream_'' @ str_nat m @ ''_thumb.jpg'')"

definition stream_ok :: "service \<Rightarrow> path \<Rightarrow> string \<Rightarrow> nat \<Rightarrow> string \<Rightarrow> bool" where
  "stream_ok svc dir jid m sid \<longleftrightarrow>
     (\<exists>r. get_recording svc sid = Inr r
        \<and> download_file svc (video_url r) (video_path dir jid m) = Inr ()
        \<and> download_file svc (thumbnail_url r) (thumb_path dir jid m) = Inr ())"

definition stream_error :: "service \<Rightarrow> path \<Rightarrow> string \<Rightarrow> nat \<Rightarrow> string \<Rightarrow> py_exn \<Rightarrow> bool" where
  "stream_error svc dir jid m sid e \<longleftrightarrow>
     get_recording svc sid = Inl e
     \<or> (\<exists>r. get_recording svc sid = Inr r
           \<and> (download_file svc (video_url r) (video_path dir jid m) = Inl e
              \<or> (download_file svc (video_url r) (video_path dir jid m) = Inr ()
                  \<and> download_file svc (thumbnail_url r) (thumb_path dir jid m) = Inl e)))"

definition download_error :: "service \<Rightarrow> status_dict \<Rightarrow> path \<Rightarrow> py_exn \<Rightarrow> bool" where
  "download_error svc st dir e \<longleftrightarrow>
     mkdir svc dir = Inl e
     \<or> (mkdir svc dir = Inr ()
         \<and> (\<exists>m<length (streams st).
               (\<forall>j<m. stream_ok svc dir (job_id st) j (streams st ! j))
               \<and> stream_error svc dir (job_id st) m (streams st ! m) e))"

text \<open>
  A batch item fails with the exception \<open>e\<close>, told in terms of what the service
  answers: the submit raises \<open>e\<close>; the poll that ends the wait raises \<open>e\<close>; the job
  ends as \<^verbatim>\<open>failed\<close> or as \<^verbatim>\<open>cancelled\<close>, for which \<^verbatim>\<open>wait_for_completion\<close>
  raises a \<^verbatim>\<open>RuntimeError\<close>; or the job ends otherwise and the download raises
  \<open>e\<close>.
\<close>

inductive item_failure :: "service \<Rightarrow> script_arg \<Rightarrow> path \<Rightarrow> bool \<Rightarrow> py_exn \<Rightarrow> bool" where
  submit_error:
    "simulate svc (script_data script) p = Inl e \<Longrightarrow> item_failure svc script dir p e"
| poll_error:
    "simulate svc (script_data script) p = Inr j \<Longrightarrow> first_final svc (sim_job_id j) k \<Longrightarrow>
     get_status svc k (sim_job_id j) = Inl e \<Longrightarrow> item_failure svc script dir p e"
| job_failed:
    "simulate svc (script_data script) p = Inr j \<Longrightarrow> first_final svc (sim_job_id j) k \<Longrightarrow>
     get_status svc k (sim_job_id j) = Inr st \<Longrightarrow> status st = ''failed'' \<Longrightarrow>
     item_failure svc script dir p
       (RuntimeError (''Job failed: '' @ (case error st of None \<Rightarrow> ''None'' | Some m \<Rightarrow> m)))"
| job_cancelled:
    "simulate svc (script_data script) p = Inr j \<Longrightarrow> first_final svc (sim_job_id j) k \<Longrightarrow>
     get_status svc k (sim_job_id j) = Inr st \<Longrightarrow> status st = ''cancelled'' \<Longrightarrow>
     item_failure svc script dir p (RuntimeError ''Job was cancelled'')"
| download_failed:
    "simulate svc (script_data script) p = Inr j \<Longrightarrow> first_final svc (sim_job_id j) k \<Longrightarrow>
     get_status svc k (sim_job_id j) = Inr st \<Longrightarrow> status st \<notin> set [''failed'', ''cancelled''] \<Longrightarrow>
     download_error svc st dir e \<Longrightarrow> item_failure svc script dir p e"

text \<open>The \<^verbatim>\<open>index\<close> field of an entry of the result list, if it is a dict.\<close>

fun outcome_index :: "outcome \<Rightarrow> nat option" where
  "outcome_index (Returned r) = Some (result_index r)"
| "outcome_index (Raised e) = None"

text \<open>
  The semaphore's counter and the tasks inside \<^verbatim>\<open>async with\<close> add up to the
  number of permits, and the counter is not negative.
\<close>

definition permits_ok :: "int \<Rightarrow> batch_state \<Rightarrow> bool" where
  "permits_ok mc s \<longleftrightarrow> semaphore s + int (in_flight s) = mc \<and> 0 \<le> semaphore s"

text \<open>
  \<open>r\<close> is what \<^verbatim>\<open>_process_single\<close> makes of item \<open>i\<close>, given fuel enough for its
  wait; every finished task holds the result of its own item.
\<close>

definition item_result :: "batch_env \<Rightarrow> nat \<Rightarrow> outcome \<Rightarrow> bool" where
  "item_result env i r \<longleftrightarrow>
     (\<exists>fuel. process_single (services env i) (scripts env ! i) i (output_dir env) (portrait env) fuel = Some r)"

definition tasks_ok :: "batch_env \<Rightarrow> batch_state \<Rightarrow> bool" where
  "tasks_ok env s \<longleftrightarrow> (\<forall>i<length (tasks s). \<forall>r. tasks s ! i = Done r \<longrightarrow> item_result env i r)"

text \<open>
  A task that has entered has acquired once, a task that is done has released once,
  and nothing else is in the log.
\<close>

definition log_ok :: "batch_state \<Rightarrow> bool" where
  "log_ok s \<longleftrightarrow>
     (\<forall>i. count_list (sem_log s) (Acquired i)
             = (if i < length (tasks s) \<and> tasks s ! i \<noteq> Queued then 1 else 0)
         \<and> count_list (sem_log s) (Released i)
             = (if i < length (tasks s) \<and> task_result (tasks s ! i) \<noteq> None then 1 else 0))"

text \<open>The schedule that runs the first \<open>n\<close> items one after the other.\<close>

definition one_by_one :: "(nat \<Rightarrow> nat) \<Rightarrow> nat \<Rightarrow> event list" where
  "one_by_one fuel n = concat (map (\<lambda>i. [Enter i, Leave i (fuel i)]) [0..<n])"

text \<open>
  The schedule that lets every item that is inside the pipeline leave it and then runs
  the items still queued one after the other; and what its two halves achieve.
\<close>

definition drain :: "(nat \<Rightarrow> nat) \<Rightarrow> nat \<Rightarrow> event list" where
  "drain fuel n = map (\<lambda>i. Leave i (fuel i)) [0..<n] @ one_by_one fuel n"

definition none_running_below :: "nat \<Rightarrow> batch_state \<Rightarrow> bool" where
  "none_running_below j s \<longleftrightarrow> (\<forall>i<j. i < length (tasks s) \<longrightarrow> tasks s ! i \<noteq> Running)"

definition done_below :: "nat \<Rightarrow> batch_state \<Rightarrow> bool" where
  "done_below j s \<longleftrightarrow> (\<forall>i<j. i < length (tasks s) \<longrightarrow> task_result (tasks s ! i) \<noteq> None)"

section \<open>Fake service handles\<close>

text \<open>
  A handle for the job \<^verbatim>\<open>job-1\<close> whose status polls are given, whose clock shows
  \<open>k\<close> seconds in iteration \<open>k\<close>, and whose other calls succeed.
\<close>

definition demo_detail :: "string \<Rightarrow> string list option \<Rightarrow> job_detail" where
  "demo_detail s ss = \<lparr> detail_job_id = ''job-1'', detail_status = s, detail_streams = ss, error_message = None \<rparr>"

definition demo_service :: "(nat \<Rightarrow> py_exn + job_detail) \<Rightarrow> service" where
  "demo_service polls =
     \<lparr> simulate = (\<lambda>script p. Inr \<lparr> sim_job_id = ''job-1'', sim_status = ''pending'' \<rparr>),
       get_simulate_status = (\<lambda>k jid. polls k),
       start_time = 0,
       loop_time = (\<lambda>k. real k),
       fmt_elapsed = (\<lambda>x. ''?''),
       mkdir = (\<lambda>p. Inr ()),
       get_recording = (\<lambda>sid. Inr \<lparr> video_url = ''v'', thumbnail_url = ''t'' \<rparr>),
       download_file = (\<lambda>url p. Inr ()) \<rparr>"

text \<open>One \<^verbatim>\<open>pending\<close> poll, then a status outside the service's vocabulary.\<close>

definition archived_service :: service where
  "archived_service = demo_service (\<lambda>k. if k = 0 then Inr (demo_detail ''pending'' None) else Inr (demo_detail ''archived'' None))"

text \<open>Completed at the first poll, with an empty list of streams.\<close>

definition empty_service :: service where
  "empty_service = demo_service (\<lambda>k. Inr (demo_detail ''completed'' (Some [])))"

text \<open>A job that stays \<^verbatim>\<open>pending\<close> for ever.\<close>

definition stuck_service :: service where
  "stuck_service = demo_service (\<lambda>k. Inr (demo_detail ''pending'' None))"

section \<open>Example inputs\<close>

text \<open>A connected session with an active stream.\<close>

definition streaming_manager :: OdysseyClientManager where
  "streaming_manager = \<lparr> connected = True, current_stream_id = Some ''stream-7'' \<rparr>"

text \<open>Three subscribed websockets, the second of which fails on every send.\<close>

definition flaky_send :: "nat \<Rightarrow> json \<Rightarrow> py_exn + unit" where
  "flaky_send connection message =
     (if connection = 2 then Inl (ServiceError ''WebSocketDisconnect'') else Inr ())"

definition three_clients :: StreamManager where
  "three_clients = \<lparr> active_connections = [1, 2, 3], is_streaming = True \<rparr>"

text \<open>A script whose start action carries its image as \<^verbatim>\<open>bytes\<close>.\<close>

definition image_script :: SimulationScript where
  "image_script = add_end (add_start new_script ''A cat'' 0 (Some (PBytes ''PNG''))) 5000"

text \<open>
  A batch of three items on two permits: the first job completes with one stream, the
  second is refused at submit with an \<^verbatim>\<open>Exception\<close>, the third is cancelled at
  submit.  In the schedule the third item has to wait for a permit, and the items end
  in the order 1, 2, 0.
\<close>

definition ok_service :: service where
  "ok_service = demo_service (\<lambda>k. Inr (demo_detail ''completed'' (Some [''stream-a''])))"

definition refusing_service :: "py_exn \<Rightarrow> service" where
  "refusing_service e = ok_service\<lparr> simulate := (\<lambda>script p. Inl e) \<rparr>"

definition demo_env :: batch_env where
  "demo_env =
     \<lparr> services = (\<lambda>i. if i = 0 then ok_service
                        else if i = 1 then refusing_service (ServiceError ''quota exceeded'')
                        else refusing_service CancelledError),
       scripts = [Raw [], Raw [], Raw []],
       output_dir = Path ''./outputs'',
       portrait = True \<rparr>"

definition demo_schedule :: "event list" where
  "demo_schedule = [Enter 0, Enter 1, Enter 2, Leave 1 0, Enter 2, Leave 2 0, Leave 0 1]"

definition demo_results :: "outcome list" where
  "demo_results =
     [Returned (Success 0 ''job-1''
        [Div (Path ''./outputs'') ''job-1_stream_0.mp4'',
         Div (Path ''./outputs'') ''job-1_stream_0_thumb.jpg'']),
      Returned (Failed 1 ''quota exceeded''),
      Raised CancelledError]"

text \<open>
  A batch of five items on two permits.  The first job is \<^verbatim>\<open>pending\<close>, then
  \<^verbatim>\<open>running\<close>, then completed with one stream; the second submit is refused; the
  third job is \<^verbatim>\<open>pending\<close> and then \<^verbatim>\<open>failed\<close>; the fourth job completes but
  the download of its thumbnail fails; the fifth submit is cancelled.  In the schedule
  items wait for a permit and for their jobs, and the first item is the last to end.
\<close>

definition waiting_service :: service where
  "waiting_service =
     demo_service (\<lambda>k. if k = 0 then Inr (demo_detail ''pending'' None)
                       else if k = 1 then Inr (demo_detail ''running'' None)
                       else Inr (demo_detail ''completed'' (Some [''stream-a''])))"

definition failed_service :: service where
  "failed_service =
     demo_service (\<lambda>k. if k = 0 then Inr (demo_detail ''pending'' None)
                       else Inr \<lparr> detail_job_id = ''job-1'', detail_status = ''failed'',
                                  detail_streams = None, error_message = Some ''out of memory'' \<rparr>)"

definition broken_download_service :: service where
  "broken_download_service =
     ok_service\<lparr> download_file :=
       (\<lambda>url p. if url = ''t'' then Inl (ServiceError ''404'') else Inr ()) \<rparr>"

definition mixed_env :: batch_env where
  "mixed_env =
     \<lparr> services = (\<lambda>i. if i = 0 then waiting_service
                        else if i = 1 then refusing_service (ServiceError ''quota exceeded'')
                        else if i = 2 then failed_service
                        else if i = 3 then broken_download_service
                        else refusing_service CancelledError),
       scripts = [Raw [], Raw [], Raw [], Raw [], Raw []],
       output_dir = Path ''./outputs'',
       portrait = True \<rparr>"

definition mixed_schedule :: "event list" where
  "mixed_schedule =
     [Enter 0, Enter 1, Enter 2, Leave 0 2, Leave 1 0, Enter 2, Enter 3, Leave 2 2,
      Enter 3, Leave 3 2, Enter 4, Leave 4 0, Leave 0 3]"

definition mixed_results :: "outcome list" where
  "mixed_results =
     [Returned (Success 0 ''job-1''
        [Div (Path ''./outputs'') ''job-1_stream_0.mp4'',
         Div (Path ''./outputs'') ''job-1_stream_0_thumb.jpg'']),
      Returned (Failed 1 ''quota exceeded''),
      Returned (Failed 2 ''Job failed: out of memory''),
      Returned (Failed 3 ''404''),
      Raised CancelledError]"

text \<open>A batch of one item whose job stays \<^verbatim>\<open>pending\<close> for ever.\<close>

definition stuck_env :: batch_env where
  "stuck_env = \<lparr> services = (\<lambda>i. stuck_service), scripts = [Raw []],
                  output_dir = Path ''./outputs'', portrait = True \<rparr>"

section \<open>The completion wait\<close>

lemma poll_loop_skip:
  "(\<forall>j<n. still_polling svc jid timeout (k + j)) \<Longrightarrow>
   poll_loop svc jid timeout k (n + fuel) = poll_loop svc jid timeout (k + n) fuel"
proof (induction n arbitrary: k)
  case 0
  then show ?case by simp
next
  case (Suc n)
  from Suc.prems have first: "still_polling svc jid timeout k"
    by (metis add.right_neutral zero_less_Suc)
  from Suc.prems have rest: "\<forall>j<n. still_polling svc jid timeout (Suc k + j)"
    by (metis Suc_less_eq add_Suc_right add_Suc)
  have "poll_loop svc jid timeout k (Suc n + fuel) = poll_loop svc jid timeout (Suc k) (n + fuel)"
    using first by (auto simp: still_polling_def split: sum.splits)
  also have "\<dots> = poll_loop svc jid timeout (Suc k + n) fuel"
    using Suc.IH [OF rest] .
  finally show ?case by simp
qed

lemma poll_loop_stop:
  assumes "get_status svc k jid = Inr st" and "status st \<notin> set [''pending'', ''running'']"
  shows "poll_loop svc jid timeout k (Suc fuel) = Some (Inr st)"
  using assms by simp

lemma poll_loop_first_final:
  assumes "\<forall>j<k. still_polling svc jid timeout j"
    and "get_status svc k jid = Inr st"
    and "status st \<notin> set [''pending'', ''running'']"
  shows "poll_loop svc jid timeout 0 k = None
       \<and> poll_loop svc jid timeout 0 (Suc k + extra) = Some (Inr st)"
proof -
  have pre: "\<forall>j<k. still_polling svc jid timeout (0 + j)" using assms(1) by simp
  have "poll_loop svc jid timeout 0 (k + 0) = poll_loop svc jid timeout (0 + k) 0"
    using pre by (rule poll_loop_skip)
  then have none: "poll_loop svc jid timeout 0 k = None" by simp
  have "poll_loop svc jid timeout 0 (k + Suc extra) = poll_loop svc jid timeout (0 + k) (Suc extra)"
    using pre by (rule poll_loop_skip)
  then have "poll_loop svc jid timeout 0 (Suc k + extra) = Some (Inr st)"
    using poll_loop_stop [OF assms(2,3)] by simp
  with none show ?thesis by simp
qed

lemma poll_loop_forever:
  assumes "\<forall>j. still_polling svc jid timeout (k + j)"
  shows "poll_loop svc jid timeout k n = None"
proof -
  have "poll_loop svc jid timeout k (n + 0) = poll_loop svc jid timeout (k + n) 0"
    using assms by (intro poll_loop_skip) simp
  then show ?thesis by simp
qed

text \<open>
  Claim C10.  \<^verbatim>\<open>wait_for_completion\<close> takes any status other than \<^verbatim>\<open>pending\<close>
  and \<^verbatim>\<open>running\<close> as final.  If poll \<open>k\<close> is the first to report such a status
  (the polls before it went on polling), the loop stops there: after \<open>k\<close> polls the
  wait is still going on, and with the next poll it ends, whatever the later polls
  would report.  It raises \<^verbatim>\<open>RuntimeError\<close> exactly when that status is
  \<^verbatim>\<open>failed\<close> or \<^verbatim>\<open>cancelled\<close>, and returns the status dict for every other
  status string, known to the service's vocabulary or not.
\<close>

theorem wait_for_completion_terminal:
  assumes "\<forall>j<k. still_polling svc jid timeout j"
    and "get_status svc k jid = Inr st"
    and "status st \<notin> set [''pending'', ''running'']"
  shows "wait_for_completion svc jid timeout k = None
       \<and> wait_for_completion svc jid timeout (Suc k + extra) =
           Some (if status st = ''failed''
                 then Inl (RuntimeError (''Job failed: '' @ (case error st of None \<Rightarrow> ''None'' | Some m \<Rightarrow> m)))
                 else if status st = ''cancelled'' then Inl (RuntimeError ''Job was cancelled'')
                 else Inr st)"
  using poll_loop_first_final [OF assms, of extra]
  by (simp add: wait_for_completion_def check_final_def)

theorem wait_for_completion_terminal_witness:
  "wait_for_completion archived_service ''job-1'' None 1 = None
   \<and> wait_for_completion archived_service ''job-1'' None 2 =
        Some (Inr \<lparr> job_id = ''job-1'', status = ''archived'', streams = [], error = None \<rparr>)"
proof -
  have a: "\<forall>j<1. still_polling archived_service ''job-1'' None j"
    by (simp add: still_polling_def archived_service_def demo_service_def demo_detail_def get_status_def)
  have b: "get_status archived_service 1 ''job-1'' = Inr \<lparr> job_id = ''job-1'', status = ''archived'', streams = [], error = None \<rparr>"
    by (simp add: archived_service_def demo_service_def demo_detail_def get_status_def)
  show ?thesis
    using wait_for_completion_terminal [OF a b, of 0] by (simp add: eval_nat_numeral)
qed

text \<open>
  Claim C1, as stated, fails: a job that is reported \<^verbatim>\<open>completed\<close> with no streams
  is returned by \<^verbatim>\<open>wait_for_completion\<close> as a result, \<^verbatim>\<open>download_result\<close>
  returns the empty list for it, and the batch item built on both is a
  \<^verbatim>\<open>success\<close> with no files.
\<close>

theorem empty_result_counterexample:
  "wait_for_completion empty_service ''job-1'' None 1 =
     Some (Inr \<lparr> job_id = ''job-1'', status = ''completed'', streams = [], error = None \<rparr>)
   \<and> download_result empty_service
        \<lparr> job_id = ''job-1'', status = ''completed'', streams = [], error = None \<rparr> (Path ''./outputs'') = Inr []
   \<and> process_single empty_service (Raw []) 0 (Path ''./outputs'') True 1 =
        Some (Returned (Success 0 ''job-1'' []))"
  by (simp add: empty_service_def demo_service_def demo_detail_def wait_for_completion_def
        get_status_def check_final_def download_result_def process_single_def submit_def)

text \<open>
  Claim C1, amended.  When the first final status is \<^verbatim>\<open>completed\<close> with an empty
  list of streams, \<^verbatim>\<open>wait_for_completion\<close> returns that status dict, and
  \<^verbatim>\<open>download_result\<close> on it returns the empty list as soon as the output
  directory could be created: no error is made up for the empty result.
\<close>

theorem completed_without_streams:
  assumes "\<forall>j<k. still_polling svc jid timeout j"
    and "get_status svc k jid = Inr st"
    and "status st = ''completed''"
    and "streams st = []"
  shows "wait_for_completion svc jid timeout (Suc k + extra) = Some (Inr st)
       \<and> download_result svc st dir = (case mkdir svc dir of Inl e \<Rightarrow> Inl e | Inr u \<Rightarrow> Inr [])"
proof -
  have "status st \<notin> set [''pending'', ''running'']" using assms(3) by simp
  from poll_loop_first_final [OF assms(1,2) this, of extra] assms(3)
  have "wait_for_completion svc jid timeout (Suc k + extra) = Some (Inr st)"
    by (simp add: wait_for_completion_def check_final_def)
  then show ?thesis using assms(4) by (simp add: download_result_def split: sum.splits)
qed

theorem completed_without_streams_witness:
  "wait_for_completion empty_service ''job-1'' (Some 60) 1 =
     Some (Inr \<lparr> job_id = ''job-1'', status = ''completed'', streams = [], error = None \<rparr>)
   \<and> download_result empty_service
        \<lparr> job_id = ''job-1'', status = ''completed'', streams = [], error = None \<rparr> (Path ''out'') = Inr []"
proof -
  have a: "\<forall>j<0. still_polling empty_service ''job-1'' (Some 60) j" by simp
  have b: "get_status empty_service 0 ''job-1'' =
             Inr \<lparr> job_id = ''job-1'', status = ''completed'', streams = [], error = None \<rparr>"
    by (simp add: empty_service_def demo_service_def demo_detail_def get_status_def)
  show ?thesis
    using completed_without_streams [OF a b, of 0 "Path ''out''"]
    by (simp add: empty_service_def demo_service_def)
qed

text \<open>
  Claim C7, at the timeout \<open>0\<close>: an explicit timeout of zero seconds is falsy in
  \<^verbatim>\<open>if timeout:\<close>, so the check is skipped and a job that stays \<^verbatim>\<open>pending\<close> is
  polled for ever, however much fuel the loop is given and although the clock moves on.
\<close>

theorem zero_timeout_never_times_out:
  "wait_for_completion stuck_service ''job-1'' (Some 0) fuel = None"
proof -
  have "\<forall>j. still_polling stuck_service ''job-1'' (Some 0) (0 + j)"
    by (simp add: still_polling_def stuck_service_def demo_service_def demo_detail_def get_status_def)
  then have "poll_loop stuck_service ''job-1'' (Some 0) 0 fuel = None"
    by (rule poll_loop_forever)
  then show ?thesis by (simp add: wait_for_completion_def)
qed

text \<open>
  The rest of what C7 says holds: without a timeout no \<^verbatim>\<open>TimeoutError\<close> is raised
  by the wait itself, a \<^verbatim>\<open>pending\<close> or \<^verbatim>\<open>running\<close> status is never returned,
  and a timeout other than zero ends the wait on a job that never becomes final, once
  the clock has passed it.
\<close>

lemma poll_loop_no_timeout:
  "poll_loop svc jid None k fuel \<noteq> Some (Inl (TimeoutError m))
   \<or> (\<exists>j. get_status svc j jid = Inl (TimeoutError m))"
  by (induction fuel arbitrary: k) (auto split: sum.splits)

lemma poll_loop_never_pending:
  "poll_loop svc jid timeout k fuel = Some (Inr st) \<Longrightarrow> status st \<notin> set [''pending'', ''running'']"
  by (induction fuel arbitrary: k) (auto split: sum.splits if_splits)

lemma nonzero_timeout_bounds:
  assumes "t \<noteq> 0"
    and "\<forall>j. \<exists>st. get_status svc j jid = Inr st \<and> status st \<in> set [''pending'', ''running'']"
    and "loop_time svc n - start_time svc > real_of_int t"
  shows "\<exists>fuel\<le>Suc n. \<exists>m. wait_for_completion svc jid (Some t) fuel = Some (Inl (TimeoutError m))"
proof -
  define late where "late j \<longleftrightarrow> loop_time svc j - start_time svc > real_of_int t" for j
  define n0 where "n0 = (LEAST j. late j)"
  have "late n" using assms(3) by (simp add: late_def)
  then have hit: "late n0" and le: "n0 \<le> n"
    unfolding n0_def by (rule LeastI, rule Least_le)
  have before: "\<not> late j" if "j < n0" for j
    using that unfolding n0_def by (rule not_less_Least)
  have "\<forall>j<n0. still_polling svc jid (Some t) (0 + j)"
  proof (intro allI impI)
    fix j assume "j < n0"
    then have "\<not> late j" by (rule before)
    moreover obtain st where "get_status svc j jid = Inr st"
      and "status st \<in> set [''pending'', ''running'']"
      using assms(2) by blast
    ultimately show "still_polling svc jid (Some t) (0 + j)"
      by (simp add: still_polling_def late_def)
  qed
  then have "poll_loop svc jid (Some t) 0 (n0 + Suc 0) = poll_loop svc jid (Some t) (0 + n0) (Suc 0)"
    by (rule poll_loop_skip)
  moreover obtain st where "get_status svc n0 jid = Inr st"
    and "status st \<in> set [''pending'', ''running'']"
    using assms(2) by blast
  ultimately have "\<exists>m. poll_loop svc jid (Some t) 0 (Suc n0) = Some (Inl (TimeoutError m))"
    using hit assms(1) by (simp add: late_def)
  then obtain m where "poll_loop svc jid (Some t) 0 (Suc n0) = Some (Inl (TimeoutError m))"
    by blast
  then have "wait_for_completion svc jid (Some t) (Suc n0) = Some (Inl (TimeoutError m))"
    by (simp only: wait_for_completion_def option.case sum.case)
  with le show ?thesis by (meson Suc_le_mono)
qed

section \<open>The batch scheduler\<close>

subsection \<open>One item\<close>

text \<open>More fuel does not change a wait that has ended, so an item has one result.\<close>

lemma poll_loop_mono:
  "poll_loop svc jid timeout k fuel = Some r \<Longrightarrow> poll_loop svc jid timeout k (fuel + d) = Some r"
proof (induction fuel arbitrary: k)
  case 0
  then show ?case by simp
next
  case (Suc fuel)
  then show ?case by (auto split: sum.splits if_splits)
qed

lemma wait_for_completion_mono:
  "wait_for_completion svc jid timeout fuel = Some r \<Longrightarrow>
   wait_for_completion svc jid timeout (fuel + d) = Some r"
  unfolding wait_for_completion_def
  by (auto split: option.splits sum.splits dest: poll_loop_mono [where d = d])

lemma process_single_mono:
  "process_single svc script i dir p fuel = Some r \<Longrightarrow>
   process_single svc script i dir p (fuel + d) = Some r"
  unfolding process_single_def
  by (auto split: option.splits sum.splits dest: wait_for_completion_mono [where d = d])

lemma process_single_unique:
  assumes "process_single svc script i dir p f1 = Some r1"
    and "process_single svc script i dir p f2 = Some r2"
  shows "r1 = r2"
proof -
  have "process_single svc script i dir p (f1 + f2) = Some r1"
    using assms(1) by (rule process_single_mono)
  moreover have "process_single svc script i dir p (f2 + f1) = Some r2"
    using assms(2) by (rule process_single_mono)
  ultimately show ?thesis by (simp add: add.commute)
qed

lemma process_single_shape:
  assumes "process_single svc script i dir p fuel = Some out"
  shows "case out of Returned r \<Rightarrow> result_index r = i | Raised e \<Rightarrow> \<not> is_Exception e"
  using assms unfolding process_single_def on_error_def
  by (auto split: option.splits sum.splits if_splits)

text \<open>
  What the code makes of an item that ends, and of an item that fails, as told by the
  service's answers.
\<close>

lemma submit_eq:
  "submit svc script p name =
     (case simulate svc (script_data script) p of Inl e \<Rightarrow> Inl e | Inr j \<Rightarrow> Inr (sim_job_id j))"
  by (cases script) (simp_all add: submit_def to_dict_def)

lemma poll_loop_at_first_final:
  assumes "first_final svc jid k"
  shows "poll_loop svc jid None 0 (Suc k + extra) =
           (case get_status svc k jid of Inl e \<Rightarrow> Some (Inl e) | Inr st \<Rightarrow> Some (Inr st))"
proof -
  from assms have pre: "\<forall>j<k. still_polling svc jid None (0 + j)"
    and stop: "\<not> still_polling svc jid None k"
    by (simp_all add: first_final_def)
  have "poll_loop svc jid None 0 (k + Suc extra) = poll_loop svc jid None (0 + k) (Suc extra)"
    using pre by (rule poll_loop_skip)
  then have "poll_loop svc jid None 0 (Suc k + extra) = poll_loop svc jid None k (Suc extra)"
    by simp
  also have "\<dots> = (case get_status svc k jid of Inl e \<Rightarrow> Some (Inl e) | Inr st \<Rightarrow> Some (Inr st))"
    using stop by (auto simp: still_polling_def split: sum.splits)
  finally show ?thesis .
qed

lemma first_final_status:
  assumes "first_final svc jid k" and "get_status svc k jid = Inr st"
  shows "status st \<notin> set [''pending'', ''running'']"
  using assms by (auto simp: first_final_def still_polling_def)

lemma wait_at_first_final:
  assumes "first_final svc jid k"
  shows "wait_for_completion svc jid None (Suc k + extra) =
           (case get_status svc k jid of Inl e \<Rightarrow> Some (Inl e) | Inr st \<Rightarrow> Some (check_final st))"
  unfolding wait_for_completion_def poll_loop_at_first_final [OF assms]
  by (simp split: sum.splits)

lemma wait_at_first_final_Suc:
  assumes "first_final svc jid k"
  shows "wait_for_completion svc jid None (Suc k) =
           (case get_status svc k jid of Inl e \<Rightarrow> Some (Inl e) | Inr st \<Rightarrow> Some (check_final st))"
  using wait_at_first_final [OF assms, of 0] by simp

lemma download_streams_error:
  assumes "m < length ss"
    and "\<forall>j<m. stream_ok svc dir jid (i + j) (ss ! j)"
    and "stream_error svc dir jid (i + m) (ss ! m) e"
  shows "download_streams svc dir jid i ss acc = Inl e"
  using assms
proof (induction ss arbitrary: i m acc)
  case Nil
  then show ?case by simp
next
  case (Cons s ss)
  show ?case
  proof (cases m)
    case 0
    with Cons.prems(3) have "stream_error svc dir jid i s e" by simp
    then show ?thesis
      by (auto simp: stream_error_def video_path_def thumb_path_def Let_def)
  next
    case (Suc m')
    with Cons.prems(2) have "stream_ok svc dir jid i s" by force
    then obtain r where r: "get_recording svc s = Inr r"
      "download_file svc (video_url r) (video_path dir jid i) = Inr ()"
      "download_file svc (thumbnail_url r) (thumb_path dir jid i) = Inr ()"
      by (auto simp: stream_ok_def)
    have m': "m' < length ss" using Cons.prems(1) Suc by simp
    have ok: "\<forall>j<m'. stream_ok svc dir jid (Suc i + j) (ss ! j)"
    proof (intro allI impI)
      fix j assume "j < m'"
      then have "Suc j < m" using Suc by simp
      with Cons.prems(2) have "stream_ok svc dir jid (i + Suc j) ((s # ss) ! Suc j)" by blast
      then show "stream_ok svc dir jid (Suc i + j) (ss ! j)" by simp
    qed
    have err: "stream_error svc dir jid (Suc i + m') (ss ! m') e"
      using Cons.prems(3) Suc by simp
    have "download_streams svc dir jid (Suc i) ss acc' = Inl e" for acc'
      using m' ok err by (rule Cons.IH)
    then show ?thesis
      using r by (simp add: video_path_def thumb_path_def Let_def)
  qed
qed

lemma download_result_error:
  assumes "download_error svc st dir e"
  shows "download_result svc st dir = Inl e"
proof -
  from assms consider "mkdir svc dir = Inl e"
    | m where "mkdir svc dir = Inr ()" "m < length (streams st)"
        "\<forall>j<m. stream_ok svc dir (job_id st) j (streams st ! j)"
        "stream_error svc dir (job_id st) m (streams st ! m) e"
    by (auto simp: download_error_def)
  then show ?thesis
  proof cases
    case 1
    then show ?thesis by (simp add: download_result_def)
  next
    case 2
    have "download_streams svc dir (job_id st) 0 (streams st) [] = Inl e"
      using 2(2) by (rule download_streams_error) (use 2(3,4) in simp_all)
    moreover have "streams st \<noteq> []" using 2(2) by auto
    ultimately show ?thesis using 2(1) by (simp add: download_result_def)
  qed
qed

lemma item_failure_outcome:
  assumes "item_failure svc script dir p e"
  shows "\<exists>fuel. process_single svc script i dir p fuel = Some (on_error i e)"
  using assms
proof cases
  case submit_error
  then show ?thesis by (simp add: process_single_def submit_eq)
next
  case (poll_error j k)
  then have "process_single svc script i dir p (Suc k) = Some (on_error i e)"
    by (simp add: process_single_def submit_eq wait_at_first_final_Suc)
  then show ?thesis ..
next
  case (job_failed j k st)
  then have "process_single svc script i dir p (Suc k) = Some (on_error i e)"
    by (simp add: process_single_def submit_eq wait_at_first_final_Suc check_final_def)
  then show ?thesis ..
next
  case (job_cancelled j k st)
  then have "process_single svc script i dir p (Suc k) = Some (on_error i e)"
    by (simp add: process_single_def submit_eq wait_at_first_final_Suc check_final_def)
  then show ?thesis ..
next
  case (download_failed j k st)
  then have "process_single svc script i dir p (Suc k) = Some (on_error i e)"
    by (simp add: process_single_def submit_eq wait_at_first_final_Suc check_final_def
          download_result_error)
  then show ?thesis ..
qed

lemma item_ends_returns:
  assumes "item_ends svc script p fuel"
  shows "process_single svc script i dir p fuel \<noteq> None"
proof (cases "simulate svc (script_data script) p")
  case (Inl e)
  then show ?thesis by (simp add: process_single_def submit_eq)
next
  case (Inr j)
  with assms obtain k where k: "k < fuel" and ff: "first_final svc (sim_job_id j) k"
    by (auto simp: item_ends_def)
  from k obtain extra where fuel: "fuel = Suc k + extra"
    by (metis less_iff_Suc_add add_Suc)
  show ?thesis
    unfolding fuel process_single_def submit_eq Inr
    by (simp add: wait_at_first_final [OF ff] del: add_Suc split: sum.splits)
qed

subsection \<open>Invariants of the schedule\<close>

lemma length_step: "length (tasks (step env s ev)) = length (tasks s)"
  by (cases ev) (auto split: option.splits)

lemma length_foldl_step: "length (tasks (foldl (step env) s schedule)) = length (tasks s)"
  by (induction schedule arbitrary: s) (simp_all add: length_step)

lemma length_run: "length (tasks (run mc env schedule)) = length (scripts env)"
  by (simp add: run_def length_foldl_step start_def)

lemma filter_update_count:
  "i < length xs \<Longrightarrow>
   length (filter P (xs[i := v])) + (if P (xs ! i) then 1 else 0)
     = length (filter P xs) + (if P v then 1 else 0)"
proof (induction xs arbitrary: i)
  case Nil
  then show ?case by simp
next
  case (Cons x xs)
  then show ?case by (cases i) auto
qed

lemma permits_ok_step:
  assumes "permits_ok mc s"
  shows "permits_ok mc (step env s ev)"
proof (cases ev)
  case (Enter i)
  show ?thesis
  proof (cases "i < length (tasks s) \<and> tasks s ! i = Queued \<and> semaphore s > 0")
    case True
    then have "length (filter in_pipeline ((tasks s)[i := Running])) + 0
             = length (filter in_pipeline (tasks s)) + 1"
      using filter_update_count [of i "tasks s" in_pipeline Running] by simp
    then show ?thesis using assms True Enter by (simp add: permits_ok_def in_flight_def)
  next
    case False
    then show ?thesis using assms Enter by auto
  qed
next
  case (Leave i fuel)
  show ?thesis
  proof (cases "i < length (tasks s) \<and> tasks s ! i = Running")
    case True
    have "length (filter in_pipeline ((tasks s)[i := Done r])) + 1
             = length (filter in_pipeline (tasks s)) + 0" for r
      using True filter_update_count [of i "tasks s" in_pipeline "Done r"] by simp
    then have "1 + int (length (filter in_pipeline ((tasks s)[i := Done r])))
             = int (length (filter in_pipeline (tasks s)))" for r
      by (metis add.commute add.right_neutral of_nat_1 of_nat_add)
    then show ?thesis using assms True Leave
      by (auto simp: permits_ok_def in_flight_def split: option.splits)
  next
    case False
    then show ?thesis using assms Leave by auto
  qed
qed

lemma permits_ok_foldl:
  "permits_ok mc s \<Longrightarrow> permits_ok mc (foldl (step env) s schedule)"
  by (induction schedule arbitrary: s) (simp_all add: permits_ok_step)

lemma permits_ok_run: "0 \<le> mc \<Longrightarrow> permits_ok mc (run mc env schedule)"
  unfolding run_def
  by (rule permits_ok_foldl) (simp add: permits_ok_def start_def in_flight_def)

lemma tasks_ok_step:
  assumes "tasks_ok env s"
  shows "tasks_ok env (step env s ev)"
proof (cases ev)
  case (Enter i)
  then show ?thesis using assms
    by (auto simp: tasks_ok_def nth_list_update)
next
  case (Leave i fuel)
  then show ?thesis using assms
    by (auto simp: tasks_ok_def nth_list_update item_result_def split: option.splits)
qed

lemma tasks_ok_foldl: "tasks_ok env s \<Longrightarrow> tasks_ok env (foldl (step env) s schedule)"
  by (induction schedule arbitrary: s) (simp_all add: tasks_ok_step)

lemma tasks_ok_run: "tasks_ok env (run mc env schedule)"
  unfolding run_def by (rule tasks_ok_foldl) (simp add: tasks_ok_def start_def)

lemma log_ok_step:
  assumes "log_ok s"
  shows "log_ok (step env s ev)"
proof (cases ev)
  case (Enter i)
  then show ?thesis using assms
    by (auto simp: log_ok_def nth_list_update)
next
  case (Leave i fuel)
  then show ?thesis using assms
    by (auto simp: log_ok_def nth_list_update split: option.splits)
qed

lemma log_ok_foldl: "log_ok s \<Longrightarrow> log_ok (foldl (step env) s schedule)"
  by (induction schedule arbitrary: s) (simp_all add: log_ok_step)

lemma log_ok_run: "log_ok (run mc env schedule)"
  unfolding run_def by (rule log_ok_foldl) (simp add: log_ok_def start_def)

lemma all_done_in_flight:
  "list_all (\<lambda>t. task_result t \<noteq> None) ts \<Longrightarrow> length (filter in_pipeline ts) = 0"
proof (induction ts)
  case Nil
  then show ?case by simp
next
  case (Cons t ts)
  then show ?case by (cases t) auto
qed

lemma process_batch_Some:
  assumes "process_batch mc env schedule = Some results"
  shows "length results = length (scripts env)"
    and "i < length (scripts env) \<Longrightarrow> tasks (run mc env schedule) ! i = Done (results ! i)"
proof -
  let ?s = "run mc env schedule"
  from assms have all: "list_all (\<lambda>t. task_result t \<noteq> None) (tasks ?s)"
    and res: "results = map (\<lambda>t. the (task_result t)) (tasks ?s)"
    by (auto simp: process_batch_def Let_def split: if_splits)
  show "length results = length (scripts env)"
    using res by (simp add: length_run)
  assume i: "i < length (scripts env)"
  then have "i < length (tasks ?s)" by (simp add: length_run)
  moreover from this all have "task_result (tasks ?s ! i) \<noteq> None"
    by (simp add: list_all_length)
  ultimately show "tasks ?s ! i = Done (results ! i)"
    using res by (cases "tasks ?s ! i") auto
qed

lemma process_batch_item:
  assumes "process_batch mc env schedule = Some results" and "i < length (scripts env)"
  shows "item_result env i (results ! i)"
proof -
  have "tasks (run mc env schedule) ! i = Done (results ! i)"
    using assms by (rule process_batch_Some(2))
  moreover have "i < length (tasks (run mc env schedule))"
    using assms(2) by (simp add: length_run)
  ultimately show ?thesis
    using tasks_ok_run [of env mc schedule] by (simp add: tasks_ok_def)
qed

lemma process_batch_empty:
  assumes "scripts env = []"
  shows "process_batch mc env schedule = Some []"
proof -
  have "length (tasks (run mc env schedule)) = 0" using assms by (simp add: length_run)
  then show ?thesis by (simp add: process_batch_def Let_def)
qed

lemma run_append: "run mc env (a @ b) = foldl (step env) (run mc env a) b"
  by (simp add: run_def)

lemma leave_keeps_not_running:
  assumes "i < length (tasks s)" and "tasks s ! i \<noteq> Running"
  shows "tasks (step env s (Leave j f)) ! i \<noteq> Running"
  using assms by (auto simp: nth_list_update split: option.splits)

lemma leave_ends_running:
  assumes "j < length (tasks s)"
    and "process_single (services env j) (scripts env ! j) j (output_dir env) (portrait env) f \<noteq> None"
  shows "tasks (step env s (Leave j f)) ! j \<noteq> Running"
  using assms by (auto split: option.splits)

lemma leave_all:
  assumes ends: "\<forall>i<length (tasks s).
                 process_single (services env i) (scripts env ! i) i
                   (output_dir env) (portrait env) (fuel i) \<noteq> None"
  shows "j \<le> length (tasks s) \<Longrightarrow>
         none_running_below j (foldl (step env) s (map (\<lambda>i. Leave i (fuel i)) [0..<j]))"
proof (induction j)
  case 0
  show ?case by (simp add: none_running_below_def)
next
  case (Suc j)
  let ?s = "foldl (step env) s (map (\<lambda>i. Leave i (fuel i)) [0..<j])"
  have len: "length (tasks ?s) = length (tasks s)" by (rule length_foldl_step)
  have IH: "none_running_below j ?s" using Suc by simp
  have j: "j < length (tasks ?s)" using Suc.prems len by simp
  have "none_running_below (Suc j) (step env ?s (Leave j (fuel j)))"
    unfolding none_running_below_def
  proof (intro allI impI)
    fix i assume i: "i < Suc j" and "i < length (tasks (step env ?s (Leave j (fuel j))))"
    show "tasks (step env ?s (Leave j (fuel j))) ! i \<noteq> Running"
    proof (cases "i = j")
      case True
      have "process_single (services env j) (scripts env ! j) j
              (output_dir env) (portrait env) (fuel j) \<noteq> None"
        using ends j len by simp
      with j have "tasks (step env ?s (Leave j (fuel j))) ! j \<noteq> Running"
        by (rule leave_ends_running)
      then show ?thesis using True by simp
    next
      case False
      then have "i < j" using i by simp
      then have "tasks ?s ! i \<noteq> Running" "i < length (tasks ?s)"
        using IH j by (auto simp: none_running_below_def)
      then show ?thesis by (intro leave_keeps_not_running)
    qed
  qed
  then show ?case by simp
qed

lemma quiet_in_flight:
  assumes "none_running_below (length (tasks s)) s"
  shows "in_flight s = 0"
proof -
  have "\<not> in_pipeline t" if "t \<in> set (tasks s)" for t
  proof -
    from that obtain i where "i < length (tasks s)" "tasks s ! i = t"
      by (auto simp: in_set_conv_nth)
    then have "t \<noteq> Running" using assms by (auto simp: none_running_below_def)
    then show ?thesis by (cases t) auto
  qed
  then show ?thesis by (simp add: in_flight_def filter_empty_conv)
qed

lemma enter_leave:
  assumes quiet: "none_running_below (length (tasks s)) s"
    and ok: "permits_ok mc s" and mc: "1 \<le> mc"
    and j: "j < length (tasks s)"
    and r: "process_single (services env j) (scripts env ! j) j (output_dir env) (portrait env) f = Some r"
  shows "tasks (step env (step env s (Enter j)) (Leave j f))
           = (if tasks s ! j = Queued then (tasks s)[j := Done r] else tasks s)"
proof (cases "tasks s ! j = Queued")
  case True
  have "in_flight s = 0" using quiet by (rule quiet_in_flight)
  then have "semaphore s > 0" using ok mc by (simp add: permits_ok_def)
  then show ?thesis using True j r by simp
next
  case False
  moreover have "tasks s ! j \<noteq> Running" using quiet j by (simp add: none_running_below_def)
  ultimately show ?thesis by simp
qed

lemma one_by_one_from:
  assumes ends: "\<forall>i<length (tasks s).
                 process_single (services env i) (scripts env ! i) i
                   (output_dir env) (portrait env) (fuel i) \<noteq> None"
    and quiet: "none_running_below (length (tasks s)) s"
    and ok: "permits_ok mc s" and mc: "1 \<le> mc"
  shows "j \<le> length (tasks s) \<Longrightarrow>
         none_running_below (length (tasks s)) (foldl (step env) s (one_by_one fuel j))
       \<and> done_below j (foldl (step env) s (one_by_one fuel j))"
proof (induction j)
  case 0
  show ?case using quiet by (simp add: one_by_one_def done_below_def)
next
  case (Suc j)
  let ?n = "length (tasks s)"
  let ?s = "foldl (step env) s (one_by_one fuel j)"
  let ?s2 = "step env (step env ?s (Enter j)) (Leave j (fuel j))"
  have len: "length (tasks ?s) = ?n" by (rule length_foldl_step)
  have q: "none_running_below (length (tasks ?s)) ?s" and d: "done_below j ?s"
    using Suc len by simp_all
  have ok': "permits_ok mc ?s" using ok by (rule permits_ok_foldl)
  have j: "j < length (tasks ?s)" using Suc.prems len by simp
  obtain r where r: "process_single (services env j) (scripts env ! j) j
                   (output_dir env) (portrait env) (fuel j) = Some r"
    using ends j len by auto
  have ts: "tasks ?s2 = (if tasks ?s ! j = Queued then (tasks ?s)[j := Done r] else tasks ?s)"
    using q ok' mc j r by (rule enter_leave)
  have notq: "tasks ?s ! j \<noteq> Queued \<Longrightarrow> task_result (tasks ?s ! j) \<noteq> None"
    using q j by (cases "tasks ?s ! j") (auto simp: none_running_below_def)
  have "none_running_below ?n ?s2"
    using q len ts j by (auto simp: none_running_below_def nth_list_update simp del: step.simps)
  moreover have "done_below (Suc j) ?s2"
    using d ts j notq by (auto simp: done_below_def nth_list_update less_Suc_eq simp del: step.simps)
  moreover have "foldl (step env) s (one_by_one fuel (Suc j)) = ?s2"
    by (simp add: one_by_one_def)
  ultimately show ?case by simp
qed

lemma drain_completes:
  assumes mc: "1 \<le> mc"
    and ends: "\<forall>i<length (scripts env).
                 process_single (services env i) (scripts env ! i) i
                   (output_dir env) (portrait env) (fuel i) \<noteq> None"
  shows "\<exists>results. process_batch mc env (schedule @ drain fuel (length (scripts env))) = Some results"
proof -
  let ?n = "length (scripts env)"
  let ?s0 = "run mc env schedule"
  let ?s1 = "foldl (step env) ?s0 (map (\<lambda>i. Leave i (fuel i)) [0..<?n])"
  let ?s2 = "foldl (step env) ?s1 (one_by_one fuel ?n)"
  have len0: "length (tasks ?s0) = ?n" by (rule length_run)
  have len1: "length (tasks ?s1) = ?n" using len0 by (simp add: length_foldl_step)
  have len2: "length (tasks ?s2) = ?n" using len1 by (simp add: length_foldl_step)
  have "permits_ok mc ?s0" using mc by (intro permits_ok_run) simp
  then have ok1: "permits_ok mc ?s1" by (rule permits_ok_foldl)
  have "none_running_below ?n ?s1"
    using leave_all [of ?s0 env fuel ?n] ends len0 by simp
  then have q1: "none_running_below (length (tasks ?s1)) ?s1" using len1 by simp
  have "done_below ?n ?s2"
    using one_by_one_from [of ?s1 env fuel mc ?n] ends q1 ok1 mc len1 by simp
  then have "list_all (\<lambda>t. task_result t \<noteq> None) (tasks ?s2)"
    using len2 by (simp add: done_below_def list_all_length)
  moreover have "run mc env (schedule @ drain fuel ?n) = ?s2"
    by (simp add: run_append drain_def)
  ultimately show ?thesis by (simp add: process_batch_def Let_def)
qed

lemma batch_returns:
  assumes "1 \<le> mc"
    and "\<forall>j<length (scripts env).
           item_ends (services env j) (scripts env ! j) (portrait env) (fuels j)"
  shows "\<exists>results. process_batch mc env (schedule @ drain fuels (length (scripts env))) = Some results"
  using assms(1)
proof (rule drain_completes)
  show "\<forall>i<length (scripts env).
          process_single (services env i) (scripts env ! i) i
            (output_dir env) (portrait env) (fuels i) \<noteq> None"
    using assms(2) by (auto dest: item_ends_returns)
qed

lemma process_batch_at:
  assumes "process_batch mc env schedule = Some results"
    and "i < length (scripts env)"
    and "process_single (services env i) (scripts env ! i) i (output_dir env) (portrait env) fuel = Some r"
  shows "results ! i = r"
proof -
  from assms(1,2) have "item_result env i (results ! i)" by (rule process_batch_item)
  then obtain fuel' where "process_single (services env i) (scripts env ! i) i
      (output_dir env) (portrait env) fuel' = Some (results ! i)"
    by (auto simp: item_result_def)
  then show ?thesis using assms(3) by (rule process_single_unique)
qed

lemma process_batch_unique:
  assumes "process_batch mc env schedule = Some results"
    and "process_batch mc' env schedule' = Some results'"
  shows "results' = results"
proof (rule nth_equalityI)
  show "length results' = length results"
    using assms by (simp add: process_batch_Some(1))
next
  fix i assume "i < length results'"
  then have i: "i < length (scripts env)" using assms(2) by (simp add: process_batch_Some(1))
  with assms(1) have "item_result env i (results ! i)" by (rule process_batch_item)
  then obtain fuel where "process_single (services env i) (scripts env ! i) i
      (output_dir env) (portrait env) fuel = Some (results ! i)"
    by (auto simp: item_result_def)
  with assms(2) i show "results' ! i = results ! i" by (rule process_batch_at)
qed

subsection \<open>The example batch\<close>

lemma str_nat_0: "str_nat 0 = ''0''"
  by code_simp

lemma ok_single:
  "process_single ok_service (Raw []) i (Path ''./outputs'') True (Suc fuel)
     = Some (Returned (Success i ''job-1''
         [Div (Path ''./outputs'') ''job-1_stream_0.mp4'',
          Div (Path ''./outputs'') ''job-1_stream_0_thumb.jpg'']))"
  by (simp add: process_single_def submit_def wait_for_completion_def get_status_def
        check_final_def download_result_def ok_service_def demo_service_def demo_detail_def
        str_nat_0)

lemma refusing_single:
  "process_single (refusing_service e) script i dir p fuel = Some (on_error i e)"
  by (simp add: process_single_def submit_def refusing_service_def)

lemma demo_run:
  "run 2 demo_env demo_schedule =
     \<lparr> semaphore = 2,
       tasks = [Done (Returned (Success 0 ''job-1''
                  [Div (Path ''./outputs'') ''job-1_stream_0.mp4'',
                   Div (Path ''./outputs'') ''job-1_stream_0_thumb.jpg''])),
                Done (Returned (Failed 1 ''quota exceeded'')),
                Done (Raised CancelledError)],
       sem_log = [Acquired 0, Acquired 1, Released 1, Acquired 2, Released 2, Released 0] \<rparr>"
  by (simp add: run_def start_def demo_env_def demo_schedule_def
        ok_single refusing_single on_error_def)

lemma demo_run_blocked:
  "run 2 demo_env [Enter 0, Enter 1, Enter 2] =
     \<lparr> semaphore = 0, tasks = [Running, Running, Queued], sem_log = [Acquired 0, Acquired 1] \<rparr>"
  by (simp add: run_def start_def demo_env_def)

lemma demo_batch: "process_batch 2 demo_env demo_schedule = Some demo_results"
  by (simp add: process_batch_def demo_run demo_results_def)

lemma waiting_single_2:
  "process_single waiting_service (Raw []) i (Path ''./outputs'') True 2 = None"
  by (simp add: process_single_def submit_def wait_for_completion_def get_status_def
        waiting_service_def demo_service_def demo_detail_def eval_nat_numeral)

lemma waiting_single_3:
  "process_single waiting_service (Raw []) i (Path ''./outputs'') True 3
     = Some (Returned (Success i ''job-1''
         [Div (Path ''./outputs'') ''job-1_stream_0.mp4'',
          Div (Path ''./outputs'') ''job-1_stream_0_thumb.jpg'']))"
  by (simp add: process_single_def submit_def wait_for_completion_def get_status_def
        check_final_def download_result_def waiting_service_def demo_service_def demo_detail_def
        str_nat_0 eval_nat_numeral)

lemma failed_single_2:
  "process_single failed_service (Raw []) i (Path ''./outputs'') True 2
     = Some (Returned (Failed i ''Job failed: out of memory''))"
  by (simp add: process_single_def submit_def wait_for_completion_def get_status_def
        check_final_def failed_service_def demo_service_def demo_detail_def on_error_def
        eval_nat_numeral)

lemma broken_download_single_2:
  "process_single broken_download_service (Raw []) i (Path ''./outputs'') True 2
     = Some (Returned (Failed i ''404''))"
  by (simp add: process_single_def submit_def wait_for_completion_def get_status_def
        check_final_def download_result_def broken_download_service_def ok_service_def
        demo_service_def demo_detail_def on_error_def eval_nat_numeral)

lemma mixed_run:
  "run 2 mixed_env mixed_schedule =
     \<lparr> semaphore = 2,
       tasks = map Done mixed_results,
       sem_log = [Acquired 0, Acquired 1, Released 1, Acquired 2, Released 2,
                  Acquired 3, Released 3, Acquired 4, Released 4, Released 0] \<rparr>"
  by (simp add: run_def start_def mixed_env_def mixed_schedule_def mixed_results_def
        waiting_single_2 waiting_single_3 failed_single_2 broken_download_single_2
        refusing_single on_error_def)

lemma mixed_batch: "process_batch 2 mixed_env mixed_schedule = Some mixed_results"
  by (simp add: process_batch_def mixed_run) (simp add: mixed_results_def)

lemma less_5_cases: "j < 5 \<Longrightarrow> j = 0 \<or> j = 1 \<or> j = 2 \<or> j = 3 \<or> j = (4::nat)"
  by arith

lemma first_final_waiting: "first_final waiting_service ''job-1'' 2"
  by (simp add: first_final_def still_polling_def get_status_def waiting_service_def
        demo_service_def demo_detail_def less_2_cases_iff)

lemma first_final_failed: "first_final failed_service ''job-1'' 1"
  by (simp add: first_final_def still_polling_def get_status_def failed_service_def
        demo_service_def demo_detail_def)

lemma first_final_broken: "first_final broken_download_service ''job-1'' 0"
  by (simp add: first_final_def still_polling_def get_status_def broken_download_service_def
        ok_service_def demo_service_def demo_detail_def)

lemma first_final_ok: "first_final ok_service ''job-1'' 0"
  by (simp add: first_final_def still_polling_def get_status_def
        ok_service_def demo_service_def demo_detail_def)

lemma mixed_ends:
  "\<forall>j<length (scripts mixed_env).
      item_ends (services mixed_env j) (scripts mixed_env ! j) (portrait mixed_env) 3"
proof (intro allI impI)
  fix j assume "j < length (scripts mixed_env)"
  then have "j < 5" by (simp add: mixed_env_def)
  then consider "j = 0" | "j = 1" | "j = 2" | "j = 3" | "j = 4"
    using less_5_cases by blast
  then show "item_ends (services mixed_env j) (scripts mixed_env ! j) (portrait mixed_env) 3"
  proof cases
    case 1
    have "\<exists>k<3. first_final waiting_service ''job-1'' k"
      using first_final_waiting by (intro exI [of _ 2]) simp
    then show ?thesis using 1
      by (simp add: item_ends_def mixed_env_def waiting_service_def demo_service_def)
  next
    case 2
    then show ?thesis by (simp add: item_ends_def mixed_env_def refusing_service_def)
  next
    case 3
    have "\<exists>k<3. first_final failed_service ''job-1'' k"
      using first_final_failed by (intro exI [of _ 1]) simp
    then show ?thesis using 3
      by (simp add: item_ends_def mixed_env_def failed_service_def demo_service_def)
  next
    case 4
    have "\<exists>k<3. first_final broken_download_service ''job-1'' k"
      using first_final_broken by (intro exI [of _ 0]) simp
    then show ?thesis using 4
      by (simp add: item_ends_def mixed_env_def broken_download_service_def ok_service_def
            demo_service_def)
  next
    case 5
    then show ?thesis by (simp add: item_ends_def mixed_env_def refusing_service_def)
  qed
qed

lemma ok_ends: "item_ends ok_service (Raw []) True 1"
proof -
  have "\<exists>k<1. first_final ok_service ''job-1'' k"
    using first_final_ok by (intro exI [of _ 0]) simp
  then show ?thesis by (simp add: item_ends_def ok_service_def demo_service_def)
qed

lemma mixed_failure_1:
  "item_failure (services mixed_env 1) (scripts mixed_env ! 1) (output_dir mixed_env)
     (portrait mixed_env) (ServiceError ''quota exceeded'')"
  by (rule item_failure.submit_error) (simp add: mixed_env_def refusing_service_def)

lemma mixed_failure_2:
  "item_failure (services mixed_env 2) (scripts mixed_env ! 2) (output_dir mixed_env)
     (portrait mixed_env) (RuntimeError ''Job failed: out of memory'')"
proof -
  have "item_failure failed_service (Raw []) (Path ''./outputs'') True
          (RuntimeError (''Job failed: '' @
             (case error \<lparr> job_id = ''job-1'', status = ''failed'', streams = [],
                            error = Some ''out of memory'' \<rparr> of
                None \<Rightarrow> ''None'' | Some m \<Rightarrow> m)))"
  proof (rule item_failure.job_failed)
    show "simulate failed_service (script_data (Raw [])) True
            = Inr \<lparr> sim_job_id = ''job-1'', sim_status = ''pending'' \<rparr>"
      by (simp add: failed_service_def demo_service_def)
    show "first_final failed_service (sim_job_id \<lparr> sim_job_id = ''job-1'', sim_status = ''pending'' \<rparr>) 1"
      using first_final_failed by simp
    show "get_status failed_service 1 (sim_job_id \<lparr> sim_job_id = ''job-1'', sim_status = ''pending'' \<rparr>)
            = Inr \<lparr> job_id = ''job-1'', status = ''failed'', streams = [],
                     error = Some ''out of memory'' \<rparr>"
      by (simp add: get_status_def failed_service_def demo_service_def)
    show "status \<lparr> job_id = ''job-1'', status = ''failed'', streams = [],
                     error = Some ''out of memory'' \<rparr> = ''failed''"
      by simp
  qed
  then show ?thesis by (simp add: mixed_env_def)
qed

lemma mixed_failure_3:
  "item_failure (services mixed_env 3) (scripts mixed_env ! 3) (output_dir mixed_env)
     (portrait mixed_env) (ServiceError ''404'')"
proof -
  let ?st = "\<lparr> job_id = ''job-1'', status = ''completed'', streams = [''stream-a''], error = None \<rparr>"
  have "item_failure broken_download_service (Raw []) (Path ''./outputs'') True (ServiceError ''404'')"
  proof (rule item_failure.download_failed)
    show "simulate broken_download_service (script_data (Raw [])) True
            = Inr \<lparr> sim_job_id = ''job-1'', sim_status = ''pending'' \<rparr>"
      by (simp add: broken_download_service_def ok_service_def demo_service_def)
    show "first_final broken_download_service
            (sim_job_id \<lparr> sim_job_id = ''job-1'', sim_status = ''pending'' \<rparr>) 0"
      using first_final_broken by simp
    show "get_status broken_download_service 0
            (sim_job_id \<lparr> sim_job_id = ''job-1'', sim_status = ''pending'' \<rparr>) = Inr ?st"
      by (simp add: get_status_def broken_download_service_def ok_service_def demo_service_def
            demo_detail_def)
    show "status ?st \<notin> set [''failed'', ''cancelled'']" by simp
    show "download_error broken_download_service ?st (Path ''./outputs'') (ServiceError ''404'')"
      by (simp add: download_error_def stream_error_def broken_download_service_def
            ok_service_def demo_service_def)
  qed
  then show ?thesis by (simp add: mixed_env_def)
qed

lemma mixed_failure_4:
  "item_failure (services mixed_env 4) (scripts mixed_env ! 4) (output_dir mixed_env)
     (portrait mixed_env) CancelledError"
  by (rule item_failure.submit_error) (simp add: mixed_env_def refusing_service_def)

lemma stuck_single: "process_single stuck_service script i dir p fuel = None"
proof -
  have "\<forall>j. still_polling stuck_service jid None (0 + j)" for jid
    by (simp add: still_polling_def stuck_service_def demo_service_def demo_detail_def get_status_def)
  then have "poll_loop stuck_service jid None 0 fuel = None" for jid
    by (rule poll_loop_forever)
  then show ?thesis
    by (simp add: process_single_def wait_for_completion_def submit_eq stuck_service_def
          demo_service_def)
qed

lemma stuck_batch_never_returns: "process_batch mc stuck_env schedule = None"
proof (rule ccontr)
  assume "process_batch mc stuck_env schedule \<noteq> None"
  then obtain results where "process_batch mc stuck_env schedule = Some results" by blast
  moreover have "0 < length (scripts stuck_env)" by (simp add: stuck_env_def)
  ultimately have "item_result stuck_env 0 (results ! 0)" by (rule process_batch_item)
  then show False by (simp add: item_result_def stuck_env_def stuck_single)
qed

subsection \<open>The claims\<close>

text \<open>
  Claim C3.  With at least one permit, under every schedule of the event loop and at
  every point of it, the number of items inside the submit, wait and download pipeline
  is at most \<open>max_concurrent\<close>; and when that many are inside, an item that tries to
  enter stays queued on the semaphore.
\<close>

theorem concurrency_bound:
  assumes "1 \<le> max_concurrent"
  shows "int (in_flight (run max_concurrent env schedule)) \<le> max_concurrent
       \<and> (int (in_flight (run max_concurrent env schedule)) = max_concurrent \<longrightarrow>
            step env (run max_concurrent env schedule) (Enter i) = run max_concurrent env schedule)"
proof -
  have "permits_ok max_concurrent (run max_concurrent env schedule)"
    using assms by (intro permits_ok_run) simp
  then show ?thesis by (auto simp: permits_ok_def)
qed

theorem concurrency_bound_witness:
  "in_flight (run 2 demo_env [Enter 0, Enter 1, Enter 2]) = 2
   \<and> step demo_env (run 2 demo_env [Enter 0, Enter 1, Enter 2]) (Enter 2)
       = run 2 demo_env [Enter 0, Enter 1, Enter 2]"
proof -
  have a: "(1::int) \<le> 2" by simp
  have b: "in_flight (run 2 demo_env [Enter 0, Enter 1, Enter 2]) = 2"
    by (simp only: demo_run_blocked in_flight_def, simp)
  show ?thesis
    using concurrency_bound [OF a, of demo_env "[Enter 0, Enter 1, Enter 2]" 2] b by simp
qed

text \<open>
  Claim C4, as stated, fails: the third item of the example batch is cancelled at
  submit, \<^verbatim>\<open>except Exception\<close> does not catch the cancellation, and
  \<^verbatim>\<open>gather\<close> with \<^verbatim>\<open>return_exceptions=True\<close> puts the exception object at the
  item's position, where there is no \<^verbatim>\<open>index\<close> field.
\<close>

theorem result_without_index_counterexample:
  "process_batch 2 demo_env demo_schedule = Some demo_results
   \<and> demo_results ! 2 = Raised CancelledError
   \<and> outcome_index (demo_results ! 2) \<noteq> Some 2"
  using demo_batch by (simp add: demo_results_def)

text \<open>
  Claim C4, amended.  For the empty list of scripts \<^verbatim>\<open>process_batch\<close> returns the
  empty list.  With at least one permit, and if every item ends (its submit is refused,
  or its job leaves \<^verbatim>\<open>pending\<close> and \<^verbatim>\<open>running\<close> or a poll raises, within the
  item's fuel), \<^verbatim>\<open>process_batch\<close> returns from whatever point the run has reached:
  it returns one entry per script, the same list under every schedule and so in
  whatever order the items end, and the entry at position \<open>i\<close> is what
  \<^verbatim>\<open>_process_single\<close> makes of \<open>scripts[i]\<close> with index \<open>i\<close>: a dict whose
  \<^verbatim>\<open>index\<close> is \<open>i\<close>, or the exception object of an exception that
  \<^verbatim>\<open>except Exception\<close> does not catch.
\<close>

theorem process_batch_outcomes_in_order:
  "(scripts env = [] \<longrightarrow> process_batch max_concurrent env schedule = Some [])
   \<and> (1 \<le> max_concurrent \<longrightarrow>
       (\<forall>j<length (scripts env).
           item_ends (services env j) (scripts env ! j) (portrait env) (fuels j)) \<longrightarrow>
       (\<exists>results.
            process_batch max_concurrent env (schedule @ drain fuels (length (scripts env)))
              = Some results
          \<and> length results = length (scripts env)
          \<and> (\<forall>schedule' results'.
                process_batch max_concurrent env schedule' = Some results' \<longrightarrow> results' = results)
          \<and> (\<forall>i<length (scripts env).
                process_single (services env i) (scripts env ! i) i
                  (output_dir env) (portrait env) (fuels i) = Some (results ! i)
                \<and> (outcome_index (results ! i) = Some i
                    \<or> (\<exists>e. results ! i = Raised e \<and> \<not> is_Exception e)))))"
proof (intro conjI impI)
  assume "scripts env = []"
  then show "process_batch max_concurrent env schedule = Some []" by (rule process_batch_empty)
next
  let ?n = "length (scripts env)"
  assume mc: "1 \<le> max_concurrent"
    and ends: "\<forall>j<?n. item_ends (services env j) (scripts env ! j) (portrait env) (fuels j)"
  from batch_returns [OF mc ends] obtain results
    where r: "process_batch max_concurrent env (schedule @ drain fuels ?n) = Some results"
    by blast
  have len: "length results = ?n" using r by (rule process_batch_Some(1))
  have uniq: "\<forall>schedule' results'.
      process_batch max_concurrent env schedule' = Some results' \<longrightarrow> results' = results"
    using r by (blast intro: process_batch_unique)
  have each: "process_single (services env i) (scripts env ! i) i
                  (output_dir env) (portrait env) (fuels i) = Some (results ! i)
                \<and> (outcome_index (results ! i) = Some i
                    \<or> (\<exists>e. results ! i = Raised e \<and> \<not> is_Exception e))"
    if i: "i < ?n" for i
  proof -
    from ends i have "process_single (services env i) (scripts env ! i) i
        (output_dir env) (portrait env) (fuels i) \<noteq> None"
      by (auto dest: item_ends_returns)
    then obtain out where out: "process_single (services env i) (scripts env ! i) i
        (output_dir env) (portrait env) (fuels i) = Some out"
      by blast
    with r i have eq: "results ! i = out" by (rule process_batch_at)
    from out have "case out of Returned r \<Rightarrow> result_index r = i | Raised e \<Rightarrow> \<not> is_Exception e"
      by (rule process_single_shape)
    then have "outcome_index out = Some i \<or> (\<exists>e. out = Raised e \<and> \<not> is_Exception e)"
      by (cases out) simp_all
    with out eq show ?thesis by simp
  qed
  show "\<exists>results.
            process_batch max_concurrent env (schedule @ drain fuels ?n) = Some results
          \<and> length results = ?n
          \<and> (\<forall>schedule' results'.
                process_batch max_concurrent env schedule' = Some results' \<longrightarrow> results' = results)
          \<and> (\<forall>i<?n.
                process_single (services env i) (scripts env ! i) i
                  (output_dir env) (portrait env) (fuels i) = Some (results ! i)
                \<and> (outcome_index (results ! i) = Some i
                    \<or> (\<exists>e. results ! i = Raised e \<and> \<not> is_Exception e)))"
    using r len uniq each by blast
qed

theorem process_batch_outcomes_in_order_witness:
  "process_batch 2 mixed_env mixed_schedule = Some mixed_results
   \<and> sem_log (run 2 mixed_env mixed_schedule)
       = [Acquired 0, Acquired 1, Released 1, Acquired 2, Released 2,
          Acquired 3, Released 3, Acquired 4, Released 4, Released 0]
   \<and> process_batch 2 mixed_env
        ([Enter 4, Enter 3, Leave 3 2] @ drain (\<lambda>i. 3) (length (scripts mixed_env)))
       = Some mixed_results
   \<and> length mixed_results = length (scripts mixed_env)
   \<and> process_single (services mixed_env 0) (scripts mixed_env ! 0) 0
        (output_dir mixed_env) (portrait mixed_env) 3 = Some (mixed_results ! 0)
   \<and> outcome_index (mixed_results ! 0) = Some 0
   \<and> outcome_index (mixed_results ! 3) = Some 3"
proof -
  have mc: "(1::int) \<le> 2" by simp
  from process_batch_outcomes_in_order
         [of mixed_env 2 "[Enter 4, Enter 3, Leave 3 2]" "\<lambda>i. 3"] mc mixed_ends
  obtain results
    where r: "process_batch 2 mixed_env
                ([Enter 4, Enter 3, Leave 3 2] @ drain (\<lambda>i. 3) (length (scripts mixed_env)))
              = Some results"
      and len: "length results = length (scripts mixed_env)"
      and uniq: "\<forall>schedule' results'.
                   process_batch 2 mixed_env schedule' = Some results' \<longrightarrow> results' = results"
      and each: "\<forall>i<length (scripts mixed_env).
                   process_single (services mixed_env i) (scripts mixed_env ! i) i
                     (output_dir mixed_env) (portrait mixed_env) 3 = Some (results ! i)
                   \<and> (outcome_index (results ! i) = Some i
                       \<or> (\<exists>e. results ! i = Raised e \<and> \<not> is_Exception e))"
    by blast
  have eq: "mixed_results = results" using uniq mixed_batch by blast
  have n: "0 < length (scripts mixed_env)" "3 < length (scripts mixed_env)"
    by (simp_all add: mixed_env_def)
  have "process_single (services mixed_env 0) (scripts mixed_env ! 0) 0
          (output_dir mixed_env) (portrait mixed_env) 3 = Some (results ! 0)"
    using each n(1) by blast
  moreover have "outcome_index (results ! 0) = Some 0" "outcome_index (results ! 3) = Some 3"
    using eq [symmetric] by (simp_all add: mixed_results_def)
  ultimately show ?thesis
    using r len eq mixed_batch by (simp add: mixed_run)
qed

text \<open>
  Claim C5, as stated, fails: the fifth item of the example batch fails at submit with
  a cancellation, which \<^verbatim>\<open>except Exception\<close> does not catch, and its entry in the
  result list is the exception object, not a dict with \<^verbatim>\<open>status: 'failed'\<close>.
\<close>

theorem cancelled_item_counterexample:
  "simulate (services mixed_env 4) (script_data (scripts mixed_env ! 4)) (portrait mixed_env)
     = Inl CancelledError
   \<and> process_batch 2 mixed_env mixed_schedule = Some mixed_results
   \<and> mixed_results ! 4 = Raised CancelledError"
  using mixed_batch by (simp add: mixed_env_def refusing_service_def mixed_results_def)

text \<open>
  Claim C5, amended.  With at least one permit, and if every item ends, the batch
  completes from whatever point the run has reached and returns one entry per item,
  the same list under every schedule, whichever items failed.  An item that fails with
  an \<^verbatim>\<open>Exception\<close> \<open>e\<close> (refused submit, poll error, job \<^verbatim>\<open>failed\<close> or
  \<^verbatim>\<open>cancelled\<close>, download error) has the entry
  \<^verbatim>\<open>{index, status: 'failed', error: str(e)}\<close>; one that fails with an exception
  that \<^verbatim>\<open>except Exception\<close> does not catch has the exception object as its entry.
  The failure does not touch the other items: whatever the service does for item \<open>i\<close>,
  as long as the item ends, the batch completes and the entries of all other items are
  the same.
\<close>

theorem batch_failure_contained:
  assumes "1 \<le> max_concurrent"
    and "\<forall>j<length (scripts env).
           item_ends (services env j) (scripts env ! j) (portrait env) (fuels j)"
  shows "\<exists>results.
      process_batch max_concurrent env (schedule @ drain fuels (length (scripts env))) = Some results
    \<and> length results = length (scripts env)
    \<and> (\<forall>schedule' results'.
          process_batch max_concurrent env schedule' = Some results' \<longrightarrow> results' = results)
    \<and> (\<forall>i<length (scripts env). \<forall>e.
          item_failure (services env i) (scripts env ! i) (output_dir env) (portrait env) e \<longrightarrow>
          results ! i = (if is_Exception e then Returned (Failed i (str_exn e)) else Raised e))
    \<and> (\<forall>i<length (scripts env). \<forall>svc' fuel'.
          item_ends svc' (scripts env ! i) (portrait env) fuel' \<longrightarrow>
          (\<exists>results'.
              process_batch max_concurrent (env\<lparr> services := (services env)(i := svc') \<rparr>)
                (schedule @ drain (fuels(i := fuel')) (length (scripts env))) = Some results'
            \<and> length results' = length (scripts env)
            \<and> (\<forall>j<length (scripts env). j \<noteq> i \<longrightarrow> results' ! j = results ! j)))"
proof -
  let ?n = "length (scripts env)"
  from batch_returns [OF assms] obtain results
    where r: "process_batch max_concurrent env (schedule @ drain fuels ?n) = Some results"
    by blast
  have len: "length results = ?n" using r by (rule process_batch_Some(1))
  have uniq: "\<forall>schedule' results'.
      process_batch max_concurrent env schedule' = Some results' \<longrightarrow> results' = results"
    using r by (blast intro: process_batch_unique)
  have fail: "results ! i = (if is_Exception e then Returned (Failed i (str_exn e)) else Raised e)"
    if i: "i < ?n"
      and f: "item_failure (services env i) (scripts env ! i) (output_dir env) (portrait env) e"
    for i e
  proof -
    from f obtain fuel where "process_single (services env i) (scripts env ! i) i
        (output_dir env) (portrait env) fuel = Some (on_error i e)"
      using item_failure_outcome by blast
    with r i have "results ! i = on_error i e" by (rule process_batch_at)
    then show ?thesis by (simp add: on_error_def)
  qed
  have iso: "\<exists>results'.
              process_batch max_concurrent (env\<lparr> services := (services env)(i := svc') \<rparr>)
                (schedule @ drain (fuels(i := fuel')) ?n) = Some results'
            \<and> length results' = ?n
            \<and> (\<forall>j<?n. j \<noteq> i \<longrightarrow> results' ! j = results ! j)"
    if i: "i < ?n" and e: "item_ends svc' (scripts env ! i) (portrait env) fuel'"
    for i svc' fuel'
  proof -
    let ?env' = "env\<lparr> services := (services env)(i := svc') \<rparr>"
    have "\<forall>j<length (scripts ?env').
            item_ends (services ?env' j) (scripts ?env' ! j) (portrait ?env') ((fuels(i := fuel')) j)"
      using assms(2) e by simp
    from batch_returns [OF assms(1) this, of schedule]
    have "\<exists>results'. process_batch max_concurrent ?env' (schedule @ drain (fuels(i := fuel')) ?n)
                   = Some results'"
      by (simp del: fun_upd_apply)
    then obtain results'
      where r': "process_batch max_concurrent ?env' (schedule @ drain (fuels(i := fuel')) ?n)
                   = Some results'"
      by blast
    have len': "length results' = ?n" using process_batch_Some(1) [OF r'] by simp
    have "results' ! j = results ! j" if j: "j < ?n" and ji: "j \<noteq> i" for j
    proof -
      from r j have "item_result env j (results ! j)" by (rule process_batch_item)
      then obtain fuel where "process_single (services env j) (scripts env ! j) j
          (output_dir env) (portrait env) fuel = Some (results ! j)"
        by (auto simp: item_result_def)
      then have single: "process_single (services ?env' j) (scripts ?env' ! j) j
          (output_dir ?env') (portrait ?env') fuel = Some (results ! j)"
        using ji by simp
      have j': "j < length (scripts ?env')" using j by simp
      from r' j' single show ?thesis by (rule process_batch_at)
    qed
    with r' len' show ?thesis by blast
  qed
  from r len uniq fail iso show ?thesis by blast
qed

theorem batch_failure_contained_witness:
  "\<exists>results results'.
      process_batch 2 mixed_env
        ([Enter 0, Enter 1, Enter 2] @ drain (\<lambda>i. 3) (length (scripts mixed_env))) = Some results
    \<and> results = mixed_results
    \<and> results ! 1 = Returned (Failed 1 ''quota exceeded'')
    \<and> results ! 2 = Returned (Failed 2 ''Job failed: out of memory'')
    \<and> results ! 3 = Returned (Failed 3 ''404'')
    \<and> results ! 4 = Raised CancelledError
    \<and> process_batch 2 (mixed_env\<lparr> services := (services mixed_env)(2 := ok_service) \<rparr>)
        ([Enter 0, Enter 1, Enter 2] @ drain ((\<lambda>i. 3)(2 := 1)) (length (scripts mixed_env)))
       = Some results'
    \<and> length results' = 5
    \<and> results' ! 0 = results ! 0
    \<and> results' ! 3 = results ! 3"
proof -
  have mc: "(1::int) \<le> 2" by simp
  have n: "0 < length (scripts mixed_env)" "1 < length (scripts mixed_env)"
    "2 < length (scripts mixed_env)" "3 < length (scripts mixed_env)"
    "4 < length (scripts mixed_env)" and len5: "length (scripts mixed_env) = 5"
    by (simp_all add: mixed_env_def)
  have ok: "item_ends ok_service (scripts mixed_env ! 2) (portrait mixed_env) 1"
    using ok_ends by (simp add: mixed_env_def)
  from batch_failure_contained [OF mc mixed_ends, of "[Enter 0, Enter 1, Enter 2]"]
  obtain results
    where r: "process_batch 2 mixed_env
                ([Enter 0, Enter 1, Enter 2] @ drain (\<lambda>i. 3) (length (scripts mixed_env)))
              = Some results"
      and uniq: "\<forall>schedule' results'.
                   process_batch 2 mixed_env schedule' = Some results' \<longrightarrow> results' = results"
      and fail: "\<forall>i<length (scripts mixed_env). \<forall>e.
          item_failure (services mixed_env i) (scripts mixed_env ! i) (output_dir mixed_env)
            (portrait mixed_env) e \<longrightarrow>
          results ! i = (if is_Exception e then Returned (Failed i (str_exn e)) else Raised e)"
      and iso: "\<forall>i<length (scripts mixed_env). \<forall>svc' fuel'.
          item_ends svc' (scripts mixed_env ! i) (portrait mixed_env) fuel' \<longrightarrow>
          (\<exists>results'.
              process_batch 2 (mixed_env\<lparr> services := (services mixed_env)(i := svc') \<rparr>)
                ([Enter 0, Enter 1, Enter 2] @ drain ((\<lambda>i. 3)(i := fuel')) (length (scripts mixed_env)))
                = Some results'
            \<and> length results' = length (scripts mixed_env)
            \<and> (\<forall>j<length (scripts mixed_env). j \<noteq> i \<longrightarrow> results' ! j = results ! j))"
    by blast
  have eq: "results = mixed_results" using uniq mixed_batch by blast
  have f1: "results ! 1 = Returned (Failed 1 ''quota exceeded'')"
    using fail n(2) mixed_failure_1 by fastforce
  have f2: "results ! 2 = Returned (Failed 2 ''Job failed: out of memory'')"
    using fail n(3) mixed_failure_2 by fastforce
  have f3: "results ! 3 = Returned (Failed 3 ''404'')"
    using fail n(4) mixed_failure_3 by fastforce
  have f4: "results ! 4 = Raised CancelledError"
    using fail n(5) mixed_failure_4 by fastforce
  from iso n(3) ok obtain results'
    where r': "process_batch 2 (mixed_env\<lparr> services := (services mixed_env)(2 := ok_service) \<rparr>)
                ([Enter 0, Enter 1, Enter 2] @ drain ((\<lambda>i. 3)(2 := 1)) (length (scripts mixed_env)))
                = Some results'"
      and len': "length results' = length (scripts mixed_env)"
      and same: "\<forall>j<length (scripts mixed_env). j \<noteq> 2 \<longrightarrow> results' ! j = results ! j"
    by blast
  have "results' ! 0 = results ! 0" "results' ! 3 = results ! 3"
    using same n(1,4) by simp_all
  with r eq f1 f2 f3 f4 r' len' len5 show ?thesis by auto
qed

text \<open>
  Claim C6.  Under every schedule and at every point of it, an item that has entered
  \<^verbatim>\<open>async with\<close> has acquired the semaphore exactly once, an item that is done
  has released it exactly once, whether it returned a success, returned a caught
  failure or was left by an exception, and no other item has released; the counter
  equals the permits minus the items inside, so it is back at \<open>max_concurrent\<close> once
  all items are done.
\<close>

theorem permit_released_once:
  assumes "0 \<le> max_concurrent" and "i < length (scripts env)"
  shows "count_list (sem_log (run max_concurrent env schedule)) (Acquired i)
           = (if tasks (run max_concurrent env schedule) ! i = Queued then 0 else 1)
       \<and> count_list (sem_log (run max_concurrent env schedule)) (Released i)
           = (if task_result (tasks (run max_concurrent env schedule) ! i) = None then 0 else 1)
       \<and> semaphore (run max_concurrent env schedule)
           = max_concurrent - int (in_flight (run max_concurrent env schedule))
       \<and> (list_all (\<lambda>t. task_result t \<noteq> None) (tasks (run max_concurrent env schedule)) \<longrightarrow>
            semaphore (run max_concurrent env schedule) = max_concurrent)"
proof -
  let ?s = "run max_concurrent env schedule"
  have i: "i < length (tasks ?s)" using assms(2) by (simp add: length_run)
  have "log_ok ?s" by (rule log_ok_run)
  then have a: "count_list (sem_log ?s) (Acquired i) = (if tasks ?s ! i = Queued then 0 else 1)"
    and r: "count_list (sem_log ?s) (Released i) = (if task_result (tasks ?s ! i) = None then 0 else 1)"
    using i by (simp_all add: log_ok_def)
  have "permits_ok max_concurrent ?s" using assms(1) by (rule permits_ok_run)
  then have p: "semaphore ?s = max_concurrent - int (in_flight ?s)"
    by (simp add: permits_ok_def)
  moreover have "list_all (\<lambda>t. task_result t \<noteq> None) (tasks ?s) \<longrightarrow> in_flight ?s = 0"
    by (simp add: in_flight_def all_done_in_flight)
  ultimately show ?thesis using a r by simp
qed

theorem permit_released_once_witness:
  "tasks (run 2 demo_env demo_schedule) = map Done demo_results
   \<and> count_list (sem_log (run 2 demo_env demo_schedule)) (Acquired 0) = 1
   \<and> count_list (sem_log (run 2 demo_env demo_schedule)) (Released 0) = 1
   \<and> count_list (sem_log (run 2 demo_env demo_schedule)) (Released 1) = 1
   \<and> count_list (sem_log (run 2 demo_env demo_schedule)) (Released 2) = 1
   \<and> semaphore (run 2 demo_env demo_schedule) = 2"
proof -
  have a: "(0::int) \<le> 2" by simp
  have n: "0 < length (scripts demo_env)" "1 < length (scripts demo_env)" "2 < length (scripts demo_env)"
    by (simp_all add: demo_env_def)
  have t: "tasks (run 2 demo_env demo_schedule) = map Done demo_results"
    by (simp add: demo_run demo_results_def)
  show ?thesis
    using permit_released_once [OF a n(1), of demo_schedule]
      permit_released_once [OF a n(2), of demo_schedule]
      permit_released_once [OF a n(3), of demo_schedule] t
    by (simp add: demo_results_def)
qed

section \<open>Ending a stream\<close>

text \<open>
  Claim C8.  On a connected session, a first \<^verbatim>\<open>end_stream\<close> whose request to the
  service succeeds returns normally and leaves no active stream id; the second call
  then returns normally as well and changes nothing, whatever the service would have
  answered: it does not reach the service.
\<close>

theorem end_stream_twice:
  assumes "connected m" and "client_first = Inr ()"
  shows "fst (end_stream client_first m) = Inr ()
       \<and> no_stream (current_stream_id (snd (end_stream client_first m)))
       \<and> end_stream client_second (snd (end_stream client_first m))
           = (Inr (), snd (end_stream client_first m))"
  using assms by (simp add: end_stream_def)

theorem end_stream_twice_witness:
  "fst (end_stream (Inr ()) streaming_manager) = Inr ()
   \<and> snd (end_stream (Inr ()) streaming_manager) = \<lparr> connected = True, current_stream_id = None \<rparr>
   \<and> end_stream (Inl (ServiceError ''gone'')) \<lparr> connected = True, current_stream_id = None \<rparr>
        = (Inr (), \<lparr> connected = True, current_stream_id = None \<rparr>)"
proof -
  have c: "connected streaming_manager" by (simp add: streaming_manager_def)
  have s: "snd (end_stream (Inr ()) streaming_manager) = \<lparr> connected = True, current_stream_id = None \<rparr>"
    by (simp add: end_stream_def streaming_manager_def)
  show ?thesis
    using end_stream_twice [OF c refl, of "Inl (ServiceError ''gone'')"] s by simp
qed

lemma end_stream_after_failure:
  assumes "connected m" and "is_Exception e"
  shows "end_stream client_second (snd (end_stream (Inl e) m)) = (Inr (), snd (end_stream (Inl e) m))"
  using assms by (simp add: end_stream_def)

section \<open>Broadcasting a frame\<close>

text \<open>
  Claim C2, as stated, fails: when the send to the second of three websockets fails,
  \<^verbatim>\<open>broadcast_frame\<close> collects the exception and leaves all three in
  \<^verbatim>\<open>active_connections\<close>; only \<^verbatim>\<open>disconnect\<close>, which it does not call, would
  remove the failing one.
\<close>

theorem broadcast_frame_counterexample:
  "gathered (broadcast_frame flaky_send three_clients ''abc'')
     = [Inr (), Inl (ServiceError ''WebSocketDisconnect''), Inr ()]
   \<and> active_connections (manager (broadcast_frame flaky_send three_clients ''abc'')) = [1, 2, 3]
   \<and> active_connections (disconnect three_clients 2) = [1, 3]"
  by (simp add: broadcast_frame_def flaky_send_def three_clients_def disconnect_def Let_def)

text \<open>
  Claim C2, amended.  If the send to one subscribed websocket fails during
  \<^verbatim>\<open>broadcast_frame\<close>, the frame message is still sent to every subscribed
  websocket, once each, no exception leaves \<^verbatim>\<open>broadcast_frame\<close> (the failure is
  among the collected results), and the manager is unchanged: the failing websocket
  stays subscribed.
\<close>

theorem broadcast_frame_send_failure:
  assumes "c \<in> set (active_connections sm)"
    and "send_text c (frame_message frame) = Inl e"
  shows "raised (broadcast_frame send_text sm frame) = None
       \<and> (\<forall>c' \<in> set (active_connections sm).
             (c', frame_message frame) \<in> set (sent (broadcast_frame send_text sm frame)))
       \<and> length (sent (broadcast_frame send_text sm frame)) = length (active_connections sm)
       \<and> Inl e \<in> set (gathered (broadcast_frame send_text sm frame))
       \<and> manager (broadcast_frame send_text sm frame) = sm"
  using assms by (auto simp: broadcast_frame_def Let_def intro: rev_image_eqI)

theorem broadcast_frame_send_failure_witness:
  "raised (broadcast_frame flaky_send three_clients ''abc'') = None
   \<and> sent (broadcast_frame flaky_send three_clients ''abc'')
       = [(1, frame_message ''abc''), (2, frame_message ''abc''), (3, frame_message ''abc'')]
   \<and> manager (broadcast_frame flaky_send three_clients ''abc'') = three_clients"
proof -
  have a: "2 \<in> set (active_connections three_clients)" by (simp add: three_clients_def)
  have b: "flaky_send 2 (frame_message ''abc'') = Inl (ServiceError ''WebSocketDisconnect'')"
    by (simp add: flaky_send_def)
  have "sent (broadcast_frame flaky_send three_clients ''abc'')
       = [(1, frame_message ''abc''), (2, frame_message ''abc''), (3, frame_message ''abc'')]"
    by (simp add: broadcast_frame_def three_clients_def Let_def)
  then show ?thesis
    using broadcast_frame_send_failure [of 2 three_clients flaky_send "''abc''", OF a b] by simp
qed

section \<open>Saving and loading a script\<close>

text \<open>
  Claim C9, at a script whose start action has a \<^verbatim>\<open>bytes\<close> image, which
  \<^verbatim>\<open>add_start\<close> accepts: \<^verbatim>\<open>to_file\<close> raises \<^verbatim>\<open>TypeError\<close> after the file
  was opened for writing, so the file is left empty and \<^verbatim>\<open>from_file\<close> fails on
  it; nothing comes back.
\<close>

theorem to_file_bytes_image:
  "fst (to_file Map.empty image_script ''cat.json'')
     = Inl (TypeError ''Object of type bytes is not JSON serializable'')
   \<and> snd (to_file Map.empty image_script ''cat.json'') ''cat.json'' = Some Empty_file
   \<and> from_file (snd (to_file Map.empty image_script ''cat.json'')) ''cat.json''
     = Inl (JSONDecodeError ''Expecting value'')"
  by (simp add: to_file_def from_file_def image_script_def add_end_def add_start_def new_script_def)

text \<open>Whenever \<^verbatim>\<open>to_file\<close> returns, \<^verbatim>\<open>from_file\<close> gives the script back.\<close>

lemma collect_map_Inr:
  "collect (map f xs) = Inr ys \<Longrightarrow> (\<And>x y. x \<in> set xs \<Longrightarrow> f x = Inr y \<Longrightarrow> g y = h x) \<Longrightarrow> map g ys = map h xs"
proof (induction xs arbitrary: ys)
  case Nil
  then show ?case by simp
next
  case (Cons x xs)
  show ?case
  proof (cases "f x")
    case (Inl e)
    with Cons.prems(1) show ?thesis by simp
  next
    case (Inr y)
    with Cons.prems(1) obtain ys' where c: "collect (map f xs) = Inr ys'" and ys: "ys = y # ys'"
      by (auto split: sum.splits)
    have "map g ys' = map h xs"
      using c Cons.prems(2) by (intro Cons.IH) auto
    moreover have "g y = h x" using Inr Cons.prems(2) by simp
    ultimately show ?thesis using ys by simp
  qed
qed

lemma json_roundtrip: "json_dumps v = Inr j \<Longrightarrow> json_loads j = v"
proof (induction v arbitrary: j)
  case (PList xs)
  from PList.prems obtain js where c: "collect (map json_dumps xs) = Inr js" and j: "j = JArray js"
    by (auto split: sum.splits)
  have "map json_loads js = map (\<lambda>x. x) xs"
    using c by (rule collect_map_Inr) (use PList.IH in auto)
  then show ?case using j by simp
next
  case (PDict kvs)
  let ?f = "\<lambda>(k, v). case json_dumps v of Inl e \<Rightarrow> Inl e | Inr j \<Rightarrow> Inr (k, j)"
  from PDict.prems obtain js where c: "collect (map ?f kvs) = Inr js" and j: "j = JObject js"
    by (auto split: sum.splits)
  have "map (\<lambda>(k, j). (k, json_loads j)) js = map (\<lambda>x. x) kvs"
    using c
  proof (rule collect_map_Inr)
    fix x y assume "x \<in> set kvs" and fx: "?f x = Inr y"
    from fx obtain k v j' where x: "x = (k, v)" and d: "json_dumps v = Inr j'" and y: "y = (k, j')"
      by (cases x) (auto split: sum.splits)
    have "v \<in> Basic_BNFs.snds x" using x by simp
    with \<open>x \<in> set kvs\<close> have "json_loads j' = v" using d by (rule PDict.IH)
    then show "(case y of (k, j) \<Rightarrow> (k, json_loads j)) = x"
      using x y by simp
  qed
  then show ?case using j by simp
qed auto

lemma to_file_from_file:
  assumes "to_file fs script filepath = (Inr (), fs')"
  shows "from_file fs' filepath = Inr script"
proof -
  from assms obtain js where c: "collect (map json_dumps (actions script)) = Inr js"
    and fs': "fs' = fs(filepath \<mapsto> Array_file js)"
    by (auto simp: to_file_def Let_def split: sum.splits)
  have "map json_loads js = map (\<lambda>x. x) (actions script)"
    using c by (rule collect_map_Inr) (rule json_roundtrip)
  then show ?thesis using fs' by (simp add: from_file_def new_script_def)
qed

end
